theory Spec2Isabelle
  imports Complex_Main "HOL-Library.Log_Nat"
begin

section \<open>Python floats\<close>

text \<open>
  The server computes on Python \<open>float\<close>s, which are IEEE 754 binary64 values. A float
  is modelled by its sign and the exact rational magnitude it denotes, next to the two
  infinities and NaN. \<open>PFinite True 0\<close> is the negative zero. Every arithmetic operation
  computes the exact rational result and rounds it to the nearest representable value,
  ties to even (\<open>round64\<close>), as the hardware does.
\<close>

datatype pyfloat = PFinite bool rat | PInf bool | PNaN

text \<open>The exceptions the modelled computations can raise.\<close>

datatype error =
    StopIteration
  | ZeroDivisionError
  | UnicodeEncodeError
  | RuntimeError

text \<open>Rounding a rational to the nearest integer, ties to the even neighbour.\<close>

definition rne :: "rat \<Rightarrow> int" where
  "rne q =
     (let f = \<lfloor>q\<rfloor>; r = q - of_int f
      in if r < 1 / 2 then f else if 1 / 2 < r then f + 1
         else if even f then f else f + 1)"

text \<open>The binary exponent of a positive rational: \<open>2 ^ e \<le> q < 2 ^ (e + 1)\<close>.\<close>

definition floor_log2 :: "rat \<Rightarrow> int" where
  "floor_log2 q =
     (if 1 \<le> q then bitlen \<lfloor>q\<rfloor> - 1 else - bitlen (\<lceil>1 / q\<rceil> - 1))"

text \<open>
  binary64 has 53 significant bits, the smallest unit in the last place is \<open>2 ^ -1074\<close>
  (subnormal numbers), and a result that rounds to \<open>2 ^ 1024\<close> or more overflows to
  infinity. The argument \<open>q\<close> is the magnitude, \<open>s\<close> the sign of the result.
\<close>

definition round64 :: "bool \<Rightarrow> rat \<Rightarrow> pyfloat" where
  "round64 s q =
     (if q = 0 then PFinite s 0
      else let ex = max (floor_log2 q - 52) (- 1074);
               v = of_int (rne (q / power_int 2 ex)) * power_int 2 ex
           in if 2 ^ 1024 \<le> v then PInf s else PFinite s v)"

text \<open>
  The float a decimal literal of the source denotes: the literal's exact value, rounded.
  Literals with a small integer value (\<open>0.0\<close>, \<open>9.0\<close>, \<open>5.0\<close>, \<open>32.0\<close>) are exact and
  are written \<open>PFinite False 9\<close> directly.
\<close>

definition float_of_rat :: "rat \<Rightarrow> pyfloat" where
  "float_of_rat q = round64 (q < 0) \<bar>q\<bar>"

definition signed :: "bool \<Rightarrow> rat \<Rightarrow> rat" where
  "signed s q = (if s then - q else q)"

definition fzero :: pyfloat where
  "fzero = PFinite False 0"

fun is_nan :: "pyfloat \<Rightarrow> bool" where
  "is_nan PNaN = True"
| "is_nan _ = False"

fun is_finite :: "pyfloat \<Rightarrow> bool" where
  "is_finite (PFinite s q) = True"
| "is_finite _ = False"

text \<open>\<open>x == y\<close>: both zeros are equal, NaN is equal to nothing, itself included.\<close>

fun f_eq :: "pyfloat \<Rightarrow> pyfloat \<Rightarrow> bool" where
  "f_eq (PFinite s q) (PFinite t r) = (signed s q = signed t r)"
| "f_eq (PInf s) (PInf t) = (s = t)"
| "f_eq _ _ = False"

text \<open>\<open>x != y\<close> is the negation of \<open>==\<close>, so \<open>v != v\<close> holds exactly for NaN.\<close>

definition f_ne :: "pyfloat \<Rightarrow> pyfloat \<Rightarrow> bool" where
  "f_ne x y = (\<not> f_eq x y)"

text \<open>\<open>x < y\<close>: false as soon as one side is NaN.\<close>

fun f_lt :: "pyfloat \<Rightarrow> pyfloat \<Rightarrow> bool" where
  "f_lt (PFinite s q) (PFinite t r) = (signed s q < signed t r)"
| "f_lt (PFinite s q) (PInf t) = (\<not> t)"
| "f_lt (PInf s) (PFinite t r) = s"
| "f_lt (PInf s) (PInf t) = (s \<and> \<not> t)"
| "f_lt _ _ = False"

text \<open>\<open>abs(x)\<close> clears the sign.\<close>

fun f_abs :: "pyfloat \<Rightarrow> pyfloat" where
  "f_abs (PFinite s q) = PFinite False q"
| "f_abs (PInf s) = PInf False"
| "f_abs PNaN = PNaN"

text \<open>The truth value of a float in a condition: false exactly for the two zeros.\<close>

fun truthy :: "pyfloat \<Rightarrow> bool" where
  "truthy (PFinite s q) = (q \<noteq> 0)"
| "truthy _ = True"

text \<open>\<open>x * y\<close>. Python raises nothing here: an overflow gives an infinity.\<close>

fun f_mul :: "pyfloat \<Rightarrow> pyfloat \<Rightarrow> pyfloat" where
  "f_mul (PFinite s q) (PFinite t r) = round64 (s \<noteq> t) (q * r)"
| "f_mul (PFinite s q) (PInf t) = (if q = 0 then PNaN else PInf (s \<noteq> t))"
| "f_mul (PInf s) (PFinite t r) = (if r = 0 then PNaN else PInf (s \<noteq> t))"
| "f_mul (PInf s) (PInf t) = PInf (s \<noteq> t)"
| "f_mul _ _ = PNaN"

text \<open>
  \<open>x + y\<close>. An exact sum of zero is the positive zero unless both operands are
  negative zeros; opposite infinities give NaN.
\<close>

fun f_add :: "pyfloat \<Rightarrow> pyfloat \<Rightarrow> pyfloat" where
  "f_add (PFinite s q) (PFinite t r) =
     (let v = signed s q + signed t r
      in if v = 0 then PFinite (s \<and> t) 0 else round64 (v < 0) \<bar>v\<bar>)"
| "f_add (PFinite s q) (PInf t) = PInf t"
| "f_add (PInf s) (PFinite t r) = PInf s"
| "f_add (PInf s) (PInf t) = (if s = t then PInf s else PNaN)"
| "f_add _ _ = PNaN"

text \<open>
  \<open>x / y\<close>. Python tests the divisor against zero first and raises
  \<open>ZeroDivisionError\<close>, whatever the dividend is.
\<close>

fun f_quot :: "pyfloat \<Rightarrow> pyfloat \<Rightarrow> pyfloat" where
  "f_quot (PFinite s q) (PFinite t r) = round64 (s \<noteq> t) (q / r)"
| "f_quot (PFinite s q) (PInf t) = PFinite (s \<noteq> t) 0"
| "f_quot (PInf s) (PFinite t r) = PInf (s \<noteq> t)"
| "f_quot _ _ = PNaN"

definition f_truediv :: "pyfloat \<Rightarrow> pyfloat \<Rightarrow> error + pyfloat" where
  "f_truediv x y = (if f_eq y fzero then Inl ZeroDivisionError else Inr (f_quot x y))"

section \<open>Unit conversions\<close>

definition M_TO_FT :: pyfloat where
  "M_TO_FT = float_of_rat (328084 / 100000)"

definition KKGF_TO_KLBF :: pyfloat where
  "KKGF_TO_KLBF = float_of_rat (220462 / 100000)"

definition KNM_TO_KFTLB :: pyfloat where
  "KNM_TO_KFTLB = float_of_rat (737562 / 1000000)"

definition MH_TO_FTHR :: pyfloat where
  "MH_TO_FTHR = float_of_rat (328084 / 100000)"

definition KPA_TO_PSI :: pyfloat where
  "KPA_TO_PSI = float_of_rat (145038 / 1000000)"

definition LMIN_TO_GPM :: pyfloat where
  "LMIN_TO_GPM = float_of_rat (264172 / 1000000)"

definition GCM3_TO_PPG :: pyfloat where
  "GCM3_TO_PPG = float_of_rat (834540 / 100000)"

definition M3_TO_BBL :: pyfloat where
  "M3_TO_BBL = float_of_rat (628981 / 100000)"

text \<open>
  \<^verbatim>\<open>
  def celsius_to_fahrenheit(c: float) -> float:
      if c == 0.0:
          return 0.0
      return c * 9.0 / 5.0 + 32.0
  \<close>
\<close>

definition celsius_to_fahrenheit :: "pyfloat \<Rightarrow> error + pyfloat" where
  "celsius_to_fahrenheit c =
     (if f_eq c (PFinite False 0) then Inr (PFinite False 0)
      else case f_truediv (f_mul c (PFinite False 9)) (PFinite False 5) of
             Inl e \<Rightarrow> Inl e
           | Inr d \<Rightarrow> Inr (f_add d (PFinite False 32)))"


section \<open>Text\<close>

text \<open>
  A Python \<open>str\<close> is the list of its code points; the model covers the code points
  below 256. \<open>is_space\<close> is \<open>str.isspace\<close> on one character, \<open>strip\<close> is
  \<open>str.strip()\<close>, \<open>lower\<close> is \<open>str.lower()\<close>.
\<close>

definition is_space :: "char \<Rightarrow> bool" where
  "is_space c =
     (c \<in> set [CHR 0x09, CHR 0x0A, CHR 0x0B, CHR 0x0C, CHR 0x0D, CHR 0x1C, CHR 0x1D,
                CHR 0x1E, CHR 0x1F, CHR 0x20, CHR 0x85, CHR 0xA0])"

definition strip :: "string \<Rightarrow> string" where
  "strip s = rev (dropWhile is_space (rev (dropWhile is_space s)))"

definition lower_char :: "char \<Rightarrow> char" where
  "lower_char c =
     (let n = (of_char c :: nat)
      in if (65 \<le> n \<and> n \<le> 90) \<or> (192 \<le> n \<and> n \<le> 222 \<and> n \<noteq> 215)
         then char_of (n + 32) else c)"

definition lower :: "string \<Rightarrow> string" where
  "lower s = map lower_char s"

definition startswith :: "string \<Rightarrow> string \<Rightarrow> bool" where
  "startswith s p = (take (length p) s = p)"

subsection \<open>The built-in \<open>float(s)\<close>\<close>

text \<open>
  \<open>float\<close> on a \<open>str\<close>, as CPython computes it: characters outside ASCII are replaced
  (a space for white space, \<open>?\<close> for the rest, no code point below 256 outside ASCII
  being a decimal digit), underscores are accepted between two digits only and removed,
  C white space is stripped at both ends, and the rest must be, as a whole, an optionally
  signed decimal number with an optional exponent, or \<open>inf\<close>, \<open>infinity\<close> or \<open>nan\<close> in
  any case. The decimal number denotes its exact value rounded to the nearest float; a
  value too large becomes an infinity, with no exception. \<open>None\<close> is \<open>ValueError\<close>, the
  only exception \<open>float\<close> raises on a \<open>str\<close>.
\<close>

definition is_digit :: "char \<Rightarrow> bool" where
  "is_digit c = (c \<in> set ''0123456789'')"

definition digit_val :: "char \<Rightarrow> nat" where
  "digit_val c = of_char c - 48"

definition digits_val :: "string \<Rightarrow> nat" where
  "digits_val ds = foldl (\<lambda>a c. 10 * a + digit_val c) 0 ds"

definition to_ascii :: "char \<Rightarrow> char" where
  "to_ascii c =
     (if c = CHR 0x85 \<or> c = CHR 0xA0 then CHR 0x20
      else if 128 \<le> (of_char c :: nat) then CHR ''?'' else c)"

fun remove_underscores :: "char \<Rightarrow> string \<Rightarrow> string option" where
  "remove_underscores prev [] = (if prev = CHR ''_'' then None else Some [])"
| "remove_underscores prev (c # cs) =
     (if c = CHR ''_''
      then (if is_digit prev then remove_underscores c cs else None)
      else if prev = CHR ''_'' \<and> \<not> is_digit c then None
      else map_option ((#) c) (remove_underscores c cs))"

definition is_c_space :: "char \<Rightarrow> bool" where
  "is_c_space c = (c \<in> set [CHR 0x09, CHR 0x0A, CHR 0x0B, CHR 0x0C, CHR 0x0D, CHR 0x20])"

definition c_strip :: "string \<Rightarrow> string" where
  "c_strip s = rev (dropWhile is_c_space (rev (dropWhile is_c_space s)))"

fun take_sign :: "string \<Rightarrow> bool \<times> string" where
  "take_sign [] = (False, [])"
| "take_sign (c # cs) =
     (if c = CHR ''-'' then (True, cs)
      else if c = CHR ''+'' then (False, cs)
      else (False, c # cs))"

text \<open>
  An exponent part is read only when at least one digit follows the \<open>e\<close> and the
  optional sign; otherwise nothing of it is consumed.
\<close>

definition parse_exponent :: "string \<Rightarrow> int \<times> string" where
  "parse_exponent s =
     (case s of
        [] \<Rightarrow> (0, [])
      | c # cs \<Rightarrow>
          if c = CHR ''e'' \<or> c = CHR ''E''
          then (let (neg, r) = take_sign cs; ds = takeWhile is_digit r
                in if ds = [] then (0, s)
                   else (if neg then - int (digits_val ds) else int (digits_val ds),
                         dropWhile is_digit r))
          else (0, s))"

definition parse_decimal :: "string \<Rightarrow> (pyfloat \<times> string) option" where
  "parse_decimal s =
     (let (neg, r1) = take_sign s;
          ip = takeWhile is_digit r1;
          r2 = dropWhile is_digit r1;
          (fp, r3) = (case r2 of
                        [] \<Rightarrow> ([], [])
                      | c # cs \<Rightarrow>
                          if c = CHR ''.''
                          then (takeWhile is_digit cs, dropWhile is_digit cs)
                          else ([], r2))
      in if ip = [] \<and> fp = [] then None
         else (let (ex, r4) = parse_exponent r3
               in Some (round64 neg (of_nat (digits_val (ip @ fp))
                                       * power_int 10 (ex - int (length fp))), r4)))"

definition parse_inf_or_nan :: "string \<Rightarrow> (pyfloat \<times> string) option" where
  "parse_inf_or_nan s =
     (let (neg, r) = take_sign s
      in if lower (take 3 r) = ''inf''
         then (if lower (take 5 (drop 3 r)) = ''inity''
               then Some (PInf neg, drop 8 r) else Some (PInf neg, drop 3 r))
         else if lower (take 3 r) = ''nan'' then Some (PNaN, drop 3 r)
         else None)"

definition py_float :: "string \<Rightarrow> pyfloat option" where
  "py_float s =
     (case remove_underscores (CHR 0x00) (map to_ascii s) of
        None \<Rightarrow> None
      | Some t \<Rightarrow>
          (let u = c_strip t
           in case (case parse_decimal u of Some r \<Rightarrow> Some r | None \<Rightarrow> parse_inf_or_nan u) of
                None \<Rightarrow> None
              | Some (v, rest) \<Rightarrow> if rest = [] then Some v else None))"

section \<open>CSV column mapping\<close>

record ColumnMap =
  time :: int
  bit_depth :: int
  hole_depth :: int
  wob :: int
  torque :: int
  rpm :: int
  rop :: int
  spp :: int
  hook_load :: int
  flow_in :: int
  mw_in :: int
  mw_out :: int
  ecd :: int
  temp_in :: int
  temp_out :: int
  gas :: int
  pump_spm :: int
  pit_volume :: int
  block_pos :: int

text \<open>\<open>ColumnMap()\<close>: every field defaults to \<open>-1\<close>.\<close>

definition ColumnMap_default :: ColumnMap where
  "ColumnMap_default =
     \<lparr>time = - 1, bit_depth = - 1, hole_depth = - 1, wob = - 1, torque = - 1, rpm = - 1,
      rop = - 1, spp = - 1, hook_load = - 1, flow_in = - 1, mw_in = - 1, mw_out = - 1,
      ecd = - 1, temp_in = - 1, temp_out = - 1, gas = - 1, pump_spm = - 1,
      pit_volume = - 1, block_pos = - 1\<rparr>"

text \<open>
  The body of the loop of \<open>map_columns\<close> for the column \<open>col\<close> at index \<open>i\<close>: the
  \<open>if\<close>/\<open>elif\<close> chain on \<open>cl = col.strip().lower()\<close>.
\<close>

definition map_column :: "ColumnMap \<Rightarrow> int \<Rightarrow> string \<Rightarrow> ColumnMap" where
  "map_column m i col =
     (let cl = lower (strip col)
      in if cl = ''time time'' \<or> cl = ''datetime parsed'' then m\<lparr>time := i\<rparr>
         else if startswith cl ''bit depth'' then m\<lparr>bit_depth := i\<rparr>
         else if startswith cl ''total depth'' \<or> startswith cl ''hole depth''
           then m\<lparr>hole_depth := i\<rparr>
         else if startswith cl ''weight on bit'' then m\<lparr>wob := i\<rparr>
         else if startswith cl ''average surface torque'' then m\<lparr>torque := i\<rparr>
         else if startswith cl ''average rotary speed'' then m\<lparr>rpm := i\<rparr>
         else if startswith cl ''rate of penetration'' then m\<lparr>rop := i\<rparr>
         else if startswith cl ''stand pipe pressure'' then m\<lparr>spp := i\<rparr>
         else if startswith cl ''total hookload'' then m\<lparr>hook_load := i\<rparr>
         else if startswith cl ''mud flow in'' then m\<lparr>flow_in := i\<rparr>
         else if startswith cl ''mud density in'' then m\<lparr>mw_in := i\<rparr>
         else if startswith cl ''mud density out'' then m\<lparr>mw_out := i\<rparr>
         else if startswith cl ''equivalent circulating'' then m\<lparr>ecd := i\<rparr>
         else if startswith cl ''tmp in'' then m\<lparr>temp_in := i\<rparr>
         else if startswith cl ''temperature out'' then m\<lparr>temp_out := i\<rparr>
         else if startswith cl ''gas (avg)'' then m\<lparr>gas := i\<rparr>
         else if startswith cl ''total spm'' then m\<lparr>pump_spm := i\<rparr>
         else if startswith cl ''tank volume'' then m\<lparr>pit_volume := i\<rparr>
         else if startswith cl ''block position'' then m\<lparr>block_pos := i\<rparr>
         else m)"

text \<open>\<open>for i, col in enumerate(header)\<close>, started at index \<open>i\<close> with the map \<open>m\<close>.\<close>

fun map_columns_loop :: "ColumnMap \<Rightarrow> int \<Rightarrow> string list \<Rightarrow> ColumnMap" where
  "map_columns_loop m i [] = m"
| "map_columns_loop m i (col # rest) = map_columns_loop (map_column m i col) (i + 1) rest"

definition map_columns :: "string list \<Rightarrow> ColumnMap" where
  "map_columns header = map_columns_loop ColumnMap_default 0 header"

subsection \<open>The column mapping as a list of rules\<close>

text \<open>
  The specification describes the mapping as an ordered list of rules, each a predicate
  on the column's stripped, lower-cased text with the field it selects; the first rule
  that matches a column decides its field. This second description is what
  \<open>map_column\<close> and \<open>map_columns\<close> are compared with.
\<close>

datatype field =
    F_time
  | F_bit_depth
  | F_hole_depth
  | F_wob
  | F_torque
  | F_rpm
  | F_rop
  | F_spp
  | F_hook_load
  | F_flow_in
  | F_mw_in
  | F_mw_out
  | F_ecd
  | F_temp_in
  | F_temp_out
  | F_gas
  | F_pump_spm
  | F_pit_volume
  | F_block_pos

definition rules :: "((string \<Rightarrow> bool) \<times> field) list" where
  "rules =
     [(\<lambda>cl. cl = ''time time'' \<or> cl = ''datetime parsed'', F_time),
      (\<lambda>cl. startswith cl ''bit depth'', F_bit_depth),
      (\<lambda>cl. startswith cl ''total depth'' \<or> startswith cl ''hole depth'', F_hole_depth),
      (\<lambda>cl. startswith cl ''weight on bit'', F_wob),
      (\<lambda>cl. startswith cl ''average surface torque'', F_torque),
      (\<lambda>cl. startswith cl ''average rotary speed'', F_rpm),
      (\<lambda>cl. startswith cl ''rate of penetration'', F_rop),
      (\<lambda>cl. startswith cl ''stand pipe pressure'', F_spp),
      (\<lambda>cl. startswith cl ''total hookload'', F_hook_load),
      (\<lambda>cl. startswith cl ''mud flow in'', F_flow_in),
      (\<lambda>cl. startswith cl ''mud density in'', F_mw_in),
      (\<lambda>cl. startswith cl ''mud density out'', F_mw_out),
      (\<lambda>cl. startswith cl ''equivalent circulating'', F_ecd),
      (\<lambda>cl. startswith cl ''tmp in'', F_temp_in),
      (\<lambda>cl. startswith cl ''temperature out'', F_temp_out),
      (\<lambda>cl. startswith cl ''gas (avg)'', F_gas),
      (\<lambda>cl. startswith cl ''total spm'', F_pump_spm),
      (\<lambda>cl. startswith cl ''tank volume'', F_pit_volume),
      (\<lambda>cl. startswith cl ''block position'', F_block_pos)]"

definition first_match :: "string \<Rightarrow> field option" where
  "first_match cl = map_option snd (find (\<lambda>(p, f). p cl) rules)"

fun index_of :: "field \<Rightarrow> ColumnMap \<Rightarrow> int" where
  "index_of F_time m = time m"
| "index_of F_bit_depth m = bit_depth m"
| "index_of F_hole_depth m = hole_depth m"
| "index_of F_wob m = wob m"
| "index_of F_torque m = torque m"
| "index_of F_rpm m = rpm m"
| "index_of F_rop m = rop m"
| "index_of F_spp m = spp m"
| "index_of F_hook_load m = hook_load m"
| "index_of F_flow_in m = flow_in m"
| "index_of F_mw_in m = mw_in m"
| "index_of F_mw_out m = mw_out m"
| "index_of F_ecd m = ecd m"
| "index_of F_temp_in m = temp_in m"
| "index_of F_temp_out m = temp_out m"
| "index_of F_gas m = gas m"
| "index_of F_pump_spm m = pump_spm m"
| "index_of F_pit_volume m = pit_volume m"
| "index_of F_block_pos m = block_pos m"

fun assign :: "field \<Rightarrow> int \<Rightarrow> ColumnMap \<Rightarrow> ColumnMap" where
  "assign F_time i m = m\<lparr>time := i\<rparr>"
| "assign F_bit_depth i m = m\<lparr>bit_depth := i\<rparr>"
| "assign F_hole_depth i m = m\<lparr>hole_depth := i\<rparr>"
| "assign F_wob i m = m\<lparr>wob := i\<rparr>"
| "assign F_torque i m = m\<lparr>torque := i\<rparr>"
| "assign F_rpm i m = m\<lparr>rpm := i\<rparr>"
| "assign F_rop i m = m\<lparr>rop := i\<rparr>"
| "assign F_spp i m = m\<lparr>spp := i\<rparr>"
| "assign F_hook_load i m = m\<lparr>hook_load := i\<rparr>"
| "assign F_flow_in i m = m\<lparr>flow_in := i\<rparr>"
| "assign F_mw_in i m = m\<lparr>mw_in := i\<rparr>"
| "assign F_mw_out i m = m\<lparr>mw_out := i\<rparr>"
| "assign F_ecd i m = m\<lparr>ecd := i\<rparr>"
| "assign F_temp_in i m = m\<lparr>temp_in := i\<rparr>"
| "assign F_temp_out i m = m\<lparr>temp_out := i\<rparr>"
| "assign F_gas i m = m\<lparr>gas := i\<rparr>"
| "assign F_pump_spm i m = m\<lparr>pump_spm := i\<rparr>"
| "assign F_pit_volume i m = m\<lparr>pit_volume := i\<rparr>"
| "assign F_block_pos i m = m\<lparr>block_pos := i\<rparr>"

text \<open>The indices of the header columns whose first matching rule selects the field \<open>f\<close>.\<close>

definition columns_for :: "field \<Rightarrow> string list \<Rightarrow> nat list" where
  "columns_for f header =
     filter (\<lambda>j. first_match (lower (strip (header ! j))) = Some f) [0..<length header]"

text \<open>
  \<^verbatim>\<open>
  def safe_float(fields: list[str], idx: int) -> float:
      if idx < 0 or idx >= len(fields):
          return 0.0
      s = fields[idx].strip()
      if not s or s.lower() in ("nan", "null", "-", ""):
          return 0.0
      try:
          v = float(s)
          if v != v:  # NaN check
              return 0.0
          return v
      except ValueError:
          return 0.0
  \<close>
  The parameter \<open>fields\<close> is written \<open>flds\<close> throughout.
\<close>

definition safe_float :: "string list \<Rightarrow> int \<Rightarrow> pyfloat" where
  "safe_float flds idx =
     (if idx < 0 \<or> int (length flds) \<le> idx then PFinite False 0
      else (let s = strip (flds ! nat idx)
            in if s = [] \<or> lower s \<in> set [''nan'', ''null'', ''-'', '''']
               then PFinite False 0
               else (case py_float s of
                       None \<Rightarrow> PFinite False 0
                     | Some v \<Rightarrow> if f_ne v v then PFinite False 0 else v)))"

section \<open>Records and frames\<close>

definition WITS_BLOCK_POS :: string where "WITS_BLOCK_POS = ''0105''"
definition WITS_BIT_DEPTH :: string where "WITS_BIT_DEPTH = ''0108''"
definition WITS_HOLE_DEPTH :: string where "WITS_HOLE_DEPTH = ''0110''"
definition WITS_ROP :: string where "WITS_ROP = ''0113''"
definition WITS_HOOK_LOAD :: string where "WITS_HOOK_LOAD = ''0114''"
definition WITS_WOB :: string where "WITS_WOB = ''0116''"
definition WITS_RPM :: string where "WITS_RPM = ''0117''"
definition WITS_TORQUE :: string where "WITS_TORQUE = ''0118''"
definition WITS_SPP :: string where "WITS_SPP = ''0119''"
definition WITS_PUMP_SPM :: string where "WITS_PUMP_SPM = ''0120''"
definition WITS_FLOW_IN :: string where "WITS_FLOW_IN = ''0121''"
definition WITS_FLOW_OUT :: string where "WITS_FLOW_OUT = ''0122''"
definition WITS_PIT_VOL :: string where "WITS_PIT_VOL = ''0123''"
definition WITS_MW_IN :: string where "WITS_MW_IN = ''0124''"
definition WITS_MW_OUT :: string where "WITS_MW_OUT = ''0125''"
definition WITS_TEMP_IN :: string where "WITS_TEMP_IN = ''0126''"
definition WITS_TEMP_OUT :: string where "WITS_TEMP_OUT = ''0127''"
definition WITS_GAS :: string where "WITS_GAS = ''0140''"
definition WITS_ECD :: string where "WITS_ECD = ''0150''"

text \<open>
  The fields of \<open>WitsRecord\<close> carry the names of the fields of \<open>ColumnMap\<close>; from here on
  the plain names are the record's and the column map's are written
  \<open>ColumnMap.bit_depth\<close>.
\<close>

record WitsRecord =
  bit_depth :: pyfloat
  hole_depth :: pyfloat
  wob :: pyfloat
  torque :: pyfloat
  rpm :: pyfloat
  rop :: pyfloat
  hook_load :: pyfloat
  spp :: pyfloat
  flow_in :: pyfloat
  mw_in :: pyfloat
  mw_out :: pyfloat
  ecd :: pyfloat
  temp_in :: pyfloat
  temp_out :: pyfloat
  gas :: pyfloat
  pump_spm :: pyfloat
  pit_volume :: pyfloat
  block_pos :: pyfloat

text \<open>\<open>WitsRecord()\<close>: every field defaults to \<open>0.0\<close>.\<close>

definition WitsRecord_default :: WitsRecord where
  "WitsRecord_default =
     \<lparr>bit_depth = PFinite False 0, hole_depth = PFinite False 0, wob = PFinite False 0,
      torque = PFinite False 0, rpm = PFinite False 0, rop = PFinite False 0,
      hook_load = PFinite False 0, spp = PFinite False 0, flow_in = PFinite False 0,
      mw_in = PFinite False 0, mw_out = PFinite False 0, ecd = PFinite False 0,
      temp_in = PFinite False 0, temp_out = PFinite False 0, gas = PFinite False 0,
      pump_spm = PFinite False 0, pit_volume = PFinite False 0, block_pos = PFinite False 0\<rparr>"

text \<open>The eighteen fields of a record, in the order of their declaration.\<close>

definition record_fields :: "WitsRecord \<Rightarrow> pyfloat list" where
  "record_fields r =
     [bit_depth r, hole_depth r, wob r, torque r, rpm r, rop r, hook_load r, spp r,
      flow_in r, mw_in r, mw_out r, ecd r, temp_in r, temp_out r, gas r, pump_spm r,
      pit_volume r, block_pos r]"

text \<open>The decimal digits of a natural number, without leading zeros.\<close>

definition digit_char :: "nat \<Rightarrow> char" where
  "digit_char d = ''0123456789'' ! d"

fun nat_digits :: "nat \<Rightarrow> string" where
  "nat_digits n =
     (if n < 10 then [digit_char n] else nat_digits (n div 10) @ [digit_char (n mod 10)])"

declare nat_digits.simps [simp del]

text \<open>
  The format \<open>f"{value:.2f}"\<close>: the exact value of the float rounded to two decimals,
  ties to even, digits without padding or separators, a minus sign when the sign bit is
  set (also on a zero); an infinity is \<open>inf\<close> or \<open>-inf\<close>, NaN is \<open>nan\<close>.
\<close>

definition format_2f :: "pyfloat \<Rightarrow> string" where
  "format_2f x =
     (case x of
        PNaN \<Rightarrow> ''nan''
      | PInf s \<Rightarrow> (if s then ''-inf'' else ''inf'')
      | PFinite s q \<Rightarrow>
          (let n = nat (rne (q * 100))
           in (if s then ''-'' else '''') @ nat_digits (n div 100) @ ''.''
                @ [digit_char (n mod 100 div 10), digit_char (n mod 10)]))"

text \<open>\<open>sep.join(lines)\<close>.\<close>

fun join :: "string \<Rightarrow> string list \<Rightarrow> string" where
  "join sep [] = []"
| "join sep [l] = l"
| "join sep (l # k # ls) = l @ sep @ join sep (k # ls)"

text \<open>\<open>s.encode("ascii")\<close> raises \<open>UnicodeEncodeError\<close> on a character outside ASCII.\<close>

definition encode_ascii :: "string \<Rightarrow> error + string" where
  "encode_ascii s =
     (if list_all (\<lambda>c. (of_char c :: nat) < 128) s then Inr s else Inl UnicodeEncodeError)"

definition CRLF :: string where
  "CRLF = [CHR 0x0D, CHR 0x0A]"

text \<open>The list \<open>items\<close> of \<open>to_wits_frame\<close>.\<close>

definition items :: "WitsRecord \<Rightarrow> (string \<times> pyfloat) list" where
  "items r =
     [(WITS_BIT_DEPTH, bit_depth r),
      (WITS_HOLE_DEPTH, hole_depth r),
      (WITS_ROP, rop r),
      (WITS_HOOK_LOAD, hook_load r),
      (WITS_WOB, wob r),
      (WITS_RPM, rpm r),
      (WITS_TORQUE, torque r),
      (WITS_SPP, spp r),
      (WITS_PUMP_SPM, pump_spm r),
      (WITS_FLOW_IN, flow_in r),
      (WITS_MW_IN, mw_in r),
      (WITS_MW_OUT, mw_out r),
      (WITS_ECD, ecd r),
      (WITS_TEMP_IN, temp_in r),
      (WITS_TEMP_OUT, temp_out r),
      (WITS_GAS, gas r),
      (WITS_PIT_VOL, pit_volume r),
      (WITS_BLOCK_POS, block_pos r)]"

text \<open>
  \<^verbatim>\<open>
      lines = ["&&"]
      items = [...]
      for code, value in items:
          lines.append(f"{code}{value:.2f}")
      lines.append("!!")
      return ("\r\n".join(lines) + "\r\n").encode("ascii")
  \<close>
\<close>

definition frame_lines :: "WitsRecord \<Rightarrow> string list" where
  "frame_lines r = [''&&''] @ map (\<lambda>(code, v). code @ format_2f v) (items r) @ [''!!'']"

definition to_wits_frame :: "WitsRecord \<Rightarrow> error + string" where
  "to_wits_frame r = encode_ascii (join CRLF (frame_lines r) @ CRLF)"

subsection \<open>Reading a frame back\<close>

text \<open>
  Two functions the statement about frames is written with. \<open>two_decimals t\<close> holds when
  \<open>t\<close> is an optional minus sign, at least one decimal digit, a point and exactly two
  decimal digits. \<open>lines_of [] b\<close> cuts the byte string \<open>b\<close> at every CRLF and returns the
  lines before each of them (and what follows the last one, if anything does).
\<close>

definition two_decimals :: "string \<Rightarrow> bool" where
  "two_decimals t =
     (let u = (if take 1 t = ''-'' then drop 1 t else t); n = length u
      in 4 \<le> n \<and> list_all is_digit (take (n - 3) u) \<and> u ! (n - 3) = CHR ''.'' \<and>
         is_digit (u ! (n - 2)) \<and> is_digit (u ! (n - 1)))"

fun lines_of :: "string \<Rightarrow> string \<Rightarrow> string list" where
  "lines_of cur [] = (if cur = [] then [] else [cur])"
| "lines_of cur [c] = [cur @ [c]]"
| "lines_of cur (c # d # ds) =
     (if c = CHR 0x0D \<and> d = CHR 0x0A then cur # lines_of [] ds
      else lines_of (cur @ [c]) (d # ds))"

section \<open>Loading the CSV\<close>

text \<open>
  The file is given as the rows \<open>csv.reader\<close> yields, the header row first; each row is
  the list of its field texts. \<open>is_blank\<close> is the test
  \<open>not fields or all(f.strip() == "" for f in fields)\<close>.
\<close>

definition is_blank :: "string list \<Rightarrow> bool" where
  "is_blank flds = (flds = [] \<or> list_all (\<lambda>f. strip f = []) flds)"

text \<open>\<open>abs(x) < 1e-10\<close>.\<close>

definition near_zero :: "pyfloat \<Rightarrow> bool" where
  "near_zero x = f_lt (f_abs x) (float_of_rat (1 / 10 ^ 10))"

text \<open>The test of the all-zero rows, on the five raw values it reads.\<close>

definition is_gap :: "ColumnMap \<Rightarrow> string list \<Rightarrow> bool" where
  "is_gap col flds =
     (near_zero (safe_float flds (ColumnMap.wob col)) \<and>
      near_zero (safe_float flds (ColumnMap.rpm col)) \<and>
      near_zero (safe_float flds (ColumnMap.rop col)) \<and>
      near_zero (safe_float flds (ColumnMap.spp col)) \<and>
      near_zero (safe_float flds (ColumnMap.bit_depth col)))"

text \<open>
  The construction of the record of a row: the raw metric values and their conversion.
  The only operation in it that can raise is the division in
  \<open>celsius_to_fahrenheit\<close>.
\<close>

definition make_record :: "ColumnMap \<Rightarrow> string list \<Rightarrow> error + WitsRecord" where
  "make_record col flds =
     (let raw_depth = safe_float flds (ColumnMap.bit_depth col);
          raw_hole = safe_float flds (ColumnMap.hole_depth col);
          raw_wob = safe_float flds (ColumnMap.wob col);
          raw_torque = safe_float flds (ColumnMap.torque col);
          raw_rpm = safe_float flds (ColumnMap.rpm col);
          raw_rop = safe_float flds (ColumnMap.rop col);
          raw_hookload = safe_float flds (ColumnMap.hook_load col);
          raw_spp = safe_float flds (ColumnMap.spp col);
          raw_flow_in = safe_float flds (ColumnMap.flow_in col);
          raw_mw_in = safe_float flds (ColumnMap.mw_in col);
          raw_mw_out = safe_float flds (ColumnMap.mw_out col);
          raw_ecd = safe_float flds (ColumnMap.ecd col);
          raw_temp_in = safe_float flds (ColumnMap.temp_in col);
          raw_temp_out = safe_float flds (ColumnMap.temp_out col);
          raw_gas = safe_float flds (ColumnMap.gas col);
          raw_pump_spm = safe_float flds (ColumnMap.pump_spm col);
          raw_pit_vol = safe_float flds (ColumnMap.pit_volume col);
          raw_block_pos = safe_float flds (ColumnMap.block_pos col)
      in case celsius_to_fahrenheit raw_temp_in of
           Inl e \<Rightarrow> Inl e
         | Inr t_in \<Rightarrow>
             (case celsius_to_fahrenheit raw_temp_out of
                Inl e \<Rightarrow> Inl e
              | Inr t_out \<Rightarrow>
                  Inr \<lparr>bit_depth = f_mul raw_depth M_TO_FT,
                       hole_depth = f_mul (if truthy raw_hole then raw_hole else raw_depth) M_TO_FT,
                       wob = f_mul raw_wob KKGF_TO_KLBF,
                       torque = f_mul raw_torque KNM_TO_KFTLB,
                       rpm = raw_rpm,
                       rop = f_mul raw_rop MH_TO_FTHR,
                       hook_load = f_mul raw_hookload KKGF_TO_KLBF,
                       spp = f_mul raw_spp KPA_TO_PSI,
                       flow_in = f_mul raw_flow_in LMIN_TO_GPM,
                       mw_in = f_mul raw_mw_in GCM3_TO_PPG,
                       mw_out = f_mul raw_mw_out GCM3_TO_PPG,
                       ecd = f_mul raw_ecd GCM3_TO_PPG,
                       temp_in = t_in,
                       temp_out = t_out,
                       gas = raw_gas,
                       pump_spm = raw_pump_spm,
                       pit_volume = f_mul raw_pit_vol M3_TO_BBL,
                       block_pos = f_mul raw_block_pos M_TO_FT\<rparr>))"

text \<open>
  The body of the loop over the data rows, on the two variables it updates: the list
  \<open>records\<close> and the counter \<open>skipped\<close>.
  \<^verbatim>\<open>
          for row_num, fields in enumerate(reader, start=2):
              if not fields or all(f.strip() == "" for f in fields):
                  continue
              ...
              if (abs(raw_wob) < 1e-10 and abs(raw_rpm) < 1e-10 and
                  abs(raw_rop) < 1e-10 and abs(raw_spp) < 1e-10 and
                  abs(raw_depth) < 1e-10):
                  skipped += 1
                  continue
              rec = WitsRecord(...)
              records.append(rec)
  \<close>
\<close>

definition load_row ::
  "ColumnMap \<Rightarrow> string list \<Rightarrow> WitsRecord list \<times> nat \<Rightarrow> error + WitsRecord list \<times> nat" where
  "load_row col flds st =
     (case st of (recs, skipped) \<Rightarrow>
        if is_blank flds then Inr (recs, skipped)
        else if is_gap col flds then Inr (recs, skipped + 1)
        else (case make_record col flds of
                Inl e \<Rightarrow> Inl e
              | Inr r \<Rightarrow> Inr (recs @ [r], skipped)))"

fun load_rows ::
  "ColumnMap \<Rightarrow> string list list \<Rightarrow> WitsRecord list \<times> nat \<Rightarrow> error + WitsRecord list \<times> nat" where
  "load_rows col [] st = Inr st"
| "load_rows col (flds # rest) st =
     (case load_row col flds st of
        Inl e \<Rightarrow> Inl e
      | Inr st' \<Rightarrow> load_rows col rest st')"

text \<open>
  \<open>load_csv\<close>: \<open>next(reader)\<close> raises \<open>StopIteration\<close> on a file without a header row; the
  function ends with \<open>return records\<close>.
\<close>

definition load_csv :: "string list list \<Rightarrow> error + WitsRecord list" where
  "load_csv rows =
     (case rows of
        [] \<Rightarrow> Inl StopIteration
      | header # body \<Rightarrow>
          (case load_rows (map_columns header) body ([], 0) of
             Inl e \<Rightarrow> Inl e
           | Inr (recs, skipped) \<Rightarrow> Inr recs))"

section \<open>The server\<close>

text \<open>
  A client's \<open>StreamWriter\<close> is named by a number. The set \<open>clients\<close> is a list without
  repetitions, in the order in which the set is iterated; \<open>add\<close> is \<open>List.insert\<close> and
  \<open>discard\<close> is \<open>removeAll\<close>.
\<close>

record WitsServer =
  records :: "WitsRecord list"
  interval :: pyfloat
  port :: int
  loop_replay :: bool
  clients :: "nat list"
  running :: bool
  total_sent :: nat

text \<open>
  What the writers have been asked to do: every call \<open>writer.write(data)\<close> and every
  \<open>writer.close()\<close>, in order.
\<close>

record network =
  writes :: "(nat \<times> string) list"
  closed :: "nat list"

text \<open>
  The exceptions \<open>broadcast\<close> catches: \<open>ConnectionResetError\<close> and \<open>BrokenPipeError\<close> are
  subclasses of \<open>OSError\<close>.
\<close>

datatype io_error = ConnectionResetError | BrokenPipeError | OSError

text \<open>
  \<open>await writer.drain()\<close> is a suspension point of \<open>broadcast\<close>. \<open>StreamWriter.drain\<close>
  raises at once when the reader already holds the exception of a lost connection; it
  yields to the event loop when the transport is closing (\<open>await sleep(0)\<close>: this is the
  case after a write that failed on the socket) or when the transport is paused, and ends
  by returning or by raising \<open>ConnectionResetError\<close>; otherwise it returns at once. While
  \<open>broadcast\<close> is suspended the other tasks of the event loop run. They touch the server
  object in three places: \<open>handle_client\<close> registers the writer of a new connection,
  \<^verbatim>\<open>
          self.clients.add(writer)
  \<close>
  \<open>handle_client\<close> ends when its client is gone (\<open>reader.read\<close> returns no data or raises),
  \<^verbatim>\<open>
          finally:
              self.clients.discard(writer)
              writer.close()
  \<close>
  and the signal handler \<open>shutdown\<close> does \<open>srv.running = False\<close>.
\<close>

datatype interference = Adds nat | Discards nat | Stops

fun interfere :: "interference \<Rightarrow> WitsServer \<times> network \<Rightarrow> WitsServer \<times> network" where
  "interfere (Adds c) (s, nw) = (s\<lparr>clients := List.insert c (clients s)\<rparr>, nw)"
| "interfere (Discards c) (s, nw) =
     (s\<lparr>clients := removeAll c (clients s)\<rparr>, nw\<lparr>closed := closed nw @ [c]\<rparr>)"
| "interfere Stops (s, nw) = (s\<lparr>running := False\<rparr>, nw)"

text \<open>
  What \<open>writer.write(data); await writer.drain()\<close> does for a writer is the environment's
  choice, given as a function \<open>outcome\<close>: \<open>None\<close> when both return at once, \<open>Raises e\<close> when
  \<open>e\<close> is raised at once, and \<open>Suspends changes result\<close> when \<open>drain\<close> suspends, the other
  tasks do \<open>changes\<close> meanwhile, and \<open>drain\<close> then returns (\<open>None\<close>) or raises.
\<close>

datatype drain = Raises io_error | Suspends "interference list" "io_error option"

text \<open>
  \<^verbatim>\<open>
      async def broadcast(self, data: bytes):
          dead = []
          for writer in self.clients:
              try:
                  writer.write(data)
                  await writer.drain()
              except (ConnectionResetError, BrokenPipeError, OSError):
                  dead.append(writer)
          for w in dead:
              self.clients.discard(w)
              w.close()
  \<close>
  The two loops are \<open>broadcast_writes\<close> and \<open>close_dead\<close>. The first one iterates over the
  set itself, not over a copy. The iterator of a set remembers the size \<open>n\<close> the set had
  when the loop began and compares it with the present size each time the loop asks for
  the next writer, also the last time, when no writer is left: if they differ it raises
  \<open>RuntimeError\<close> (\<open>Set changed size during iteration\<close>), which the \<open>except\<close> clause,
  being inside the loop body and for other exceptions, does not catch. So the first loop
  ends with an exception or without one, and in both cases with the list \<open>dead\<close>, the
  server object and the network as they are then.

  The writers the iterator has still to yield are \<open>todo\<close>. A writer discarded during a
  suspension is not yielded any more. A writer added during a suspension goes to the
  front of the order of iteration (\<open>List.insert\<close>), which the iterator has left behind: it
  is not yielded either. This matters only when the set is back at its old size at the
  next request; a changed size ends the loop.
\<close>

function broadcast_writes ::
  "(nat \<Rightarrow> drain option) \<Rightarrow> string \<Rightarrow> nat \<Rightarrow> nat list \<Rightarrow>
     nat list \<times> WitsServer \<times> network \<Rightarrow> error option \<times> nat list \<times> WitsServer \<times> network" where
  "broadcast_writes outcome data n [] (dead, s, nw) =
     (if length (clients s) \<noteq> n then (Some RuntimeError, dead, s, nw)
      else (None, dead, s, nw))"
| "broadcast_writes outcome data n (writer # rest) (dead, s, nw) =
     (if length (clients s) \<noteq> n then (Some RuntimeError, dead, s, nw)
      else (let nw1 = nw\<lparr>writes := writes nw @ [(writer, data)]\<rparr>
            in case outcome writer of
                 None \<Rightarrow> broadcast_writes outcome data n rest (dead, s, nw1)
               | Some (Raises e) \<Rightarrow>
                   broadcast_writes outcome data n rest (dead @ [writer], s, nw1)
               | Some (Suspends changes result) \<Rightarrow>
                   (let (s2, nw2) = fold interfere changes (s, nw1);
                        dead2 = (case result of None \<Rightarrow> dead | Some e \<Rightarrow> dead @ [writer])
                    in broadcast_writes outcome data n
                         (filter (\<lambda>w. w \<in> set (clients s2)) rest) (dead2, s2, nw2))))"
  by pat_completeness auto

termination broadcast_writes
  by (relation "measure (\<lambda>(outcome, data, n, todo, st). length todo)")
     (auto simp: less_Suc_eq_le)

fun close_dead :: "nat list \<Rightarrow> nat list \<times> network \<Rightarrow> nat list \<times> network" where
  "close_dead [] (cl, nw) = (cl, nw)"
| "close_dead (w # ws) (cl, nw) =
     close_dead ws (removeAll w cl, nw\<lparr>closed := closed nw @ [w]\<rparr>)"

text \<open>
  \<open>broadcast\<close> from its call to its end: the exception it ends with, if any, and the
  server object and the network it leaves. The second loop is reached only when the
  first one ends without an exception.
\<close>

definition broadcast ::
  "(nat \<Rightarrow> drain option) \<Rightarrow> string \<Rightarrow> WitsServer \<times> network \<Rightarrow>
     error option \<times> WitsServer \<times> network" where
  "broadcast outcome data sn =
     (case sn of (s, nw) \<Rightarrow>
        (case broadcast_writes outcome data (length (clients s)) (clients s) ([], s, nw) of
           (Some e, dead, s1, nw1) \<Rightarrow> (Some e, s1, nw1)
         | (None, dead, s1, nw1) \<Rightarrow>
             (let (cl, nw2) = close_dead dead (clients s1, nw1)
              in (None, s1\<lparr>clients := cl\<rparr>, nw2))))"

text \<open>
  Two properties of an outcome that the statements below use: the write to a writer
  fails when \<open>write\<close> or \<open>drain\<close> raises, at once or after a suspension; a writer's drain
  is undisturbed when no other task touches the server object while it is suspended.
\<close>

definition failed :: "(nat \<Rightarrow> drain option) \<Rightarrow> nat \<Rightarrow> bool" where
  "failed outcome w =
     (case outcome w of
        None \<Rightarrow> False
      | Some (Raises e) \<Rightarrow> True
      | Some (Suspends changes result) \<Rightarrow> result \<noteq> None)"

definition undisturbed :: "(nat \<Rightarrow> drain option) \<Rightarrow> nat \<Rightarrow> bool" where
  "undisturbed outcome w =
     (case outcome w of
        None \<Rightarrow> True
      | Some (Raises e) \<Rightarrow> True
      | Some (Suspends changes result) \<Rightarrow> changes = [])"

subsection \<open>The feed loop\<close>

text \<open>
  \<open>_feed_loop\<close> is a coroutine: it runs until it suspends in a \<open>sleep\<close>, and while it is
  suspended clients connect and disconnect and a signal may clear \<open>running\<close>. The
  state of the system is the server object, the network, the place where the feed loop
  is suspended and its local variable \<open>pass_num\<close>. The places are: not yet started; the
  wait for the first client before the loop; the wait for a client inside the iteration
  for record \<open>i\<close>; the pacing sleep that ends the iteration for record \<open>i\<close>; the idle
  loop after the last pass; returned; ended by an exception. The suspensions inside
  \<open>broadcast\<close> are not places of their own: what the other tasks do during them is part
  of the outcome given with the resumption. The \<open>print\<close> calls are left out.
\<close>

datatype location =
    Start
  | WaitFirstClient
  | WaitReconnect nat
  | Pace nat
  | IdleAfterReplay
  | Returned
  | Raised error

record system =
  srv :: WitsServer
  netw :: network
  loc :: location
  pass_num :: nat

text \<open>\<open>while self.running: await asyncio.sleep(1.0)\<close> and the \<open>return\<close> after it.\<close>

definition idle_after_replay :: "system \<Rightarrow> system" where
  "idle_after_replay s =
     (if running (srv s) then s\<lparr>loc := IdleAfterReplay\<rparr> else s\<lparr>loc := Returned\<rparr>)"

text \<open>
  \<^verbatim>\<open>
                  frame = rec.to_wits_frame()
                  await self.broadcast(frame)
                  self.total_sent += 1
                  ...
                  await asyncio.sleep(self.interval)
  \<close>
  The feed loop has no \<open>try\<close>: an exception raised by \<open>to_wits_frame\<close> or by \<open>broadcast\<close>
  ends the task where it is raised, before \<open>self.total_sent += 1\<close>.
\<close>

definition send_record :: "(nat \<Rightarrow> drain option) \<Rightarrow> nat \<Rightarrow> system \<Rightarrow> system" where
  "send_record outcome i s =
     (case to_wits_frame (records (srv s) ! i) of
        Inl e \<Rightarrow> s\<lparr>loc := Raised e\<rparr>
      | Inr frame \<Rightarrow>
          (case broadcast outcome frame (srv s, netw s) of
             (Some e, sv, nw) \<Rightarrow> s\<lparr>srv := sv, netw := nw, loc := Raised e\<rparr>
           | (None, sv, nw) \<Rightarrow>
               s\<lparr>srv := sv\<lparr>total_sent := total_sent sv + 1\<rparr>, netw := nw, loc := Pace i\<rparr>))"

text \<open>
  \<^verbatim>\<open>
                      while not self.clients and self.running:
                          await asyncio.sleep(0.1)
  \<close>
  followed by the rest of the iteration.
\<close>

definition wait_reconnect :: "(nat \<Rightarrow> drain option) \<Rightarrow> nat \<Rightarrow> system \<Rightarrow> system" where
  "wait_reconnect outcome i s =
     (if clients (srv s) = [] \<and> running (srv s) then s\<lparr>loc := WaitReconnect i\<rparr>
      else send_record outcome i s)"

text \<open>
  The iteration of the \<open>for\<close> loop for record \<open>i\<close>, from its first line to its first
  suspension.
  \<^verbatim>\<open>
              for i, rec in enumerate(self.records):
                  if not self.running:
                      return
                  if not self.clients:
                      # Wait for a client to reconnect
                      while not self.clients and self.running: ...
  \<close>
\<close>

definition iteration :: "(nat \<Rightarrow> drain option) \<Rightarrow> nat \<Rightarrow> system \<Rightarrow> system" where
  "iteration outcome i s =
     (if \<not> running (srv s) then s\<lparr>loc := Returned\<rparr>
      else if clients (srv s) = [] then wait_reconnect outcome i s
      else send_record outcome i s)"

text \<open>
  The loop \<open>while self.running\<close> from its head to the next suspension. With an empty
  list of records and \<open>loop_replay\<close> set the loop never suspends: the result is \<open>None\<close>.
\<close>

partial_function (option) run_passes ::
  "(nat \<Rightarrow> drain option) \<Rightarrow> system \<Rightarrow> system option" where
  "run_passes outcome s =
     (if \<not> running (srv s) then Some (s\<lparr>loc := Returned\<rparr>)
      else (let s1 = s\<lparr>pass_num := pass_num s + 1\<rparr>
            in if records (srv s1) = []
               then (if loop_replay (srv s1) then run_passes outcome s1
                     else Some (idle_after_replay s1))
               else Some (iteration outcome 0 s1)))"

text \<open>The wait for the first client, and \<open>pass_num = 0\<close> after it.\<close>

definition first_wait :: "(nat \<Rightarrow> drain option) \<Rightarrow> system \<Rightarrow> system option" where
  "first_wait outcome s =
     (if clients (srv s) = [] \<and> running (srv s) then Some (s\<lparr>loc := WaitFirstClient\<rparr>)
      else run_passes outcome (s\<lparr>pass_num := 0\<rparr>))"

text \<open>After the pacing sleep: the next record, or the end of the pass.\<close>

definition after_pace :: "(nat \<Rightarrow> drain option) \<Rightarrow> nat \<Rightarrow> system \<Rightarrow> system option" where
  "after_pace outcome i s =
     (if i + 1 < length (records (srv s)) then Some (iteration outcome (i + 1) s)
      else if \<not> loop_replay (srv s) then Some (idle_after_replay s)
      else run_passes outcome s)"

text \<open>The feed loop runs from the place where it is suspended to its next suspension.\<close>

definition resume :: "(nat \<Rightarrow> drain option) \<Rightarrow> system \<Rightarrow> system option" where
  "resume outcome s =
     (case loc s of
        Start \<Rightarrow> first_wait outcome s
      | WaitFirstClient \<Rightarrow> first_wait outcome s
      | WaitReconnect i \<Rightarrow> Some (wait_reconnect outcome i s)
      | Pace i \<Rightarrow> after_pace outcome i s
      | IdleAfterReplay \<Rightarrow> Some (idle_after_replay s)
      | Returned \<Rightarrow> Some s
      | Raised e \<Rightarrow> Some s)"

text \<open>
  What happens in the system, one event at a time: \<open>handle_client\<close> adds a writer to
  the set when a client connects, and discards and closes it when the client is gone;
  the signal handler clears \<open>running\<close>; the feed loop is resumed, with the outcome of
  the writes of the broadcast it may do.
\<close>

datatype event =
    Connect nat
  | Disconnect nat
  | Shutdown
  | Resume "nat \<Rightarrow> drain option"

definition step :: "event \<Rightarrow> system \<Rightarrow> system option" where
  "step ev s =
     (case ev of
        Connect c \<Rightarrow> Some (s\<lparr>srv := (srv s)\<lparr>clients := List.insert c (clients (srv s))\<rparr>\<rparr>)
      | Disconnect c \<Rightarrow>
          Some (s\<lparr>srv := (srv s)\<lparr>clients := removeAll c (clients (srv s))\<rparr>,
                  netw := (netw s)\<lparr>closed := closed (netw s) @ [c]\<rparr>\<rparr>)
      | Shutdown \<Rightarrow> Some (s\<lparr>srv := (srv s)\<lparr>running := False\<rparr>\<rparr>)
      | Resume outcome \<Rightarrow> resume outcome s)"

fun run :: "event list \<Rightarrow> system \<Rightarrow> system option" where
  "run [] s = Some s"
| "run (ev # evs) s = (case step ev s of None \<Rightarrow> None | Some s' \<Rightarrow> run evs s')"

text \<open>
  The system when \<open>run\<close> has created the server object and the feed task:
  \<open>clients = set()\<close>, \<open>running = True\<close>, \<open>total_sent = 0\<close>.
\<close>

definition initial :: "WitsRecord list \<Rightarrow> pyfloat \<Rightarrow> int \<Rightarrow> bool \<Rightarrow> system" where
  "initial recs ival p lp =
     \<lparr>srv = \<lparr>records = recs, interval = ival, port = p, loop_replay = lp, clients = [],
             running = True, total_sent = 0\<rparr>,
      netw = \<lparr>writes = [], closed = []\<rparr>,
      loc = Start,
      pass_num = 0\<rparr>"

section \<open>Facts about the float model\<close>

subsection \<open>The rounding function\<close>

lemma pow2_of_int_le: "(2::int) ^ n \<le> k \<Longrightarrow> (2::rat) ^ n \<le> of_int k"
  by (metis of_int_le_iff of_int_numeral of_int_power)

lemma of_int_le_pow2: "k \<le> (2::int) ^ n \<Longrightarrow> (of_int k :: rat) \<le> 2 ^ n"
  by (metis of_int_le_iff of_int_numeral of_int_power)

lemma of_int_less_pow2: "k < (2::int) ^ n \<Longrightarrow> (of_int k :: rat) < 2 ^ n"
  by (metis of_int_less_iff of_int_numeral of_int_power)

lemma bitlen_positive:
  assumes "0 < n"
  shows "1 \<le> bitlen n"
proof -
  from bitlen_bounds [OF assms] have "n < 2 ^ nat (bitlen n)" by simp
  with assms show ?thesis by (cases "bitlen n \<le> 0") auto
qed

text \<open>\<open>floor_log2\<close> computes the binary exponent of a positive rational.\<close>

lemma floor_log2_bounds:
  assumes "0 < q"
  shows "power_int 2 (floor_log2 q) \<le> q \<and> q < power_int 2 (floor_log2 q + 1)"
proof (cases "1 \<le> q")
  case True
  define n where "n = \<lfloor>q\<rfloor>"
  define k where "k = bitlen n"
  have n: "0 < n" using True by (simp add: n_def)
  from bitlen_bounds [OF n] have b: "2 ^ nat (k - 1) \<le> n" "n < 2 ^ nat k"
    by (simp_all add: k_def)
  have k: "1 \<le> k" unfolding k_def using n by (rule bitlen_positive)
  have e: "floor_log2 q = k - 1"
    using True by (simp add: floor_log2_def n_def k_def)
  have "(2::rat) ^ nat (k - 1) \<le> of_int n"
    using b(1) by (rule pow2_of_int_le)
  also have "\<dots> \<le> q" by (simp add: n_def)
  finally have lo: "power_int 2 (k - 1) \<le> q"
    using k by (simp add: power_int_def)
  have "n + 1 \<le> 2 ^ nat k" using b(2) by simp
  then have "(of_int (n + 1) :: rat) \<le> 2 ^ nat k"
    by (rule of_int_le_pow2)
  moreover have "q < of_int (n + 1)"
    unfolding n_def by linarith
  ultimately have "q < 2 ^ nat k" by linarith
  then have hi: "q < power_int 2 k"
    using k by (simp add: power_int_def)
  show ?thesis using lo hi by (simp add: e)
next
  case False
  define r where "r = 1 / q"
  define n where "n = \<lceil>r\<rceil> - 1"
  define k where "k = bitlen n"
  have r: "1 < r" using False assms by (simp add: r_def)
  have n: "0 < n" using r unfolding n_def by linarith
  from bitlen_bounds [OF n] have b: "2 ^ nat (k - 1) \<le> n" "n < 2 ^ nat k"
    by (simp_all add: k_def)
  have k: "1 \<le> k" unfolding k_def using n by (rule bitlen_positive)
  have e: "floor_log2 q = - k"
    using False by (simp add: floor_log2_def n_def k_def r_def)
  have nr: "of_int n < r" "r \<le> of_int n + 1"
    unfolding n_def by linarith+
  have "n + 1 \<le> 2 ^ nat k" using b(2) by simp
  then have "(of_int (n + 1) :: rat) \<le> 2 ^ nat k"
    by (rule of_int_le_pow2)
  then have "r \<le> 2 ^ nat k" using nr(2) by simp
  then have "1 / q \<le> 2 ^ nat k" by (simp add: r_def)
  then have "1 \<le> 2 ^ nat k * q"
    using assms by (simp add: field_simps)
  then have "1 / 2 ^ nat k \<le> q"
    by (simp add: field_simps)
  then have lo: "power_int 2 (- k) \<le> q"
    using k by (simp add: power_int_def field_simps)
  have "(2::rat) ^ nat (k - 1) \<le> of_int n"
    using b(1) by (rule pow2_of_int_le)
  then have "2 ^ nat (k - 1) < r" using nr(1) by linarith
  then have "2 ^ nat (k - 1) < 1 / q" by (simp add: r_def)
  then have "q * 2 ^ nat (k - 1) < 1"
    using assms by (simp add: field_simps)
  then have "q < 1 / 2 ^ nat (k - 1)"
    by (simp add: field_simps)
  moreover have "power_int (2::rat) (- k + 1) = 1 / 2 ^ nat (k - 1)"
  proof (cases "k = 1")
    case True
    then show ?thesis by simp
  next
    case False
    with k have "- k + 1 < 0" by simp
    moreover have "nat (- (- k + 1)) = nat (k - 1)" by simp
    ultimately show ?thesis by (simp add: power_int_def field_simps)
  qed
  ultimately have hi: "q < power_int 2 (- k + 1)" by simp
  show ?thesis using lo hi by (simp add: e)
qed

lemma floor_log2_unique:
  assumes "power_int 2 e \<le> q" "q < power_int 2 (e + 1)"
  shows "floor_log2 q = e"
proof -
  have "(0::rat) < power_int 2 e" by simp
  with assms have q: "0 < q" by linarith
  note b = floor_log2_bounds [OF q]
  let ?f = "floor_log2 q"
  have "\<not> ?f < e"
  proof
    assume "?f < e"
    then have "?f + 1 \<le> e" by simp
    then have "power_int (2::rat) (?f + 1) \<le> power_int 2 e"
      by (intro power_int_increasing) auto
    with b assms show False by linarith
  qed
  moreover have "\<not> e < ?f"
  proof
    assume "e < ?f"
    then have "e + 1 \<le> ?f" by simp
    then have "power_int (2::rat) (e + 1) \<le> power_int 2 ?f"
      by (intro power_int_increasing) auto
    with b assms show False by linarith
  qed
  ultimately show ?thesis by simp
qed

lemma rne_of_int: "rne (of_int n) = n"
  by (simp add: rne_def)

text \<open>
  How a rounding is evaluated: the binary exponent \<open>e\<close> and the rounded significand
  \<open>m\<close> are given, and the side conditions are closed numeral facts.
\<close>

lemma round64_eval:
  assumes "power_int 2 e \<le> q" "q < power_int 2 (e + 1)"
    and "ex = max (e - 52) (- 1074)"
    and "rne (q / power_int 2 ex) = m"
    and "v = of_int m * power_int 2 ex"
    and "v < 2 ^ 1024"
  shows "round64 s q = PFinite s v"
proof -
  have "(0::rat) < power_int 2 e" by simp
  with assms have q: "q \<noteq> 0" by linarith
  have "floor_log2 q = e" using assms(1,2) by (rule floor_log2_unique)
  then show ?thesis
    using q assms(3-6) by (simp add: round64_def Let_def)
qed

lemma rne_nearest:
  assumes "of_int m - 1 / 2 < q" "q < of_int m + 1 / 2"
  shows "rne q = m"
proof (cases "of_int m \<le> q")
  case True
  with assms(2) have "\<lfloor>q\<rfloor> = m" by linarith
  with assms(2) show ?thesis by (simp add: rne_def Let_def)
next
  case False
  with assms(1) have "\<lfloor>q\<rfloor> = m - 1" by linarith
  with assms(1) show ?thesis by (simp add: rne_def Let_def)
qed

lemma round64_nearest:
  assumes "power_int 2 e \<le> q" "q < power_int 2 (e + 1)"
    and "ex = max (e - 52) (- 1074)"
    and "of_int m - 1 / 2 < q / power_int 2 ex" "q / power_int 2 ex < of_int m + 1 / 2"
    and "v = of_int m * power_int 2 ex"
    and "v < 2 ^ 1024"
  shows "round64 s q = PFinite s v"
  using assms(1-3) rne_nearest [OF assms(4,5)] assms(6,7) by (rule round64_eval)

text \<open>Integers below \<open>2 ^ 53\<close> are floats: rounding leaves them as they are.\<close>

lemma round64_int:
  assumes "0 < n" "n < 2 ^ 53"
  shows "round64 s (of_int n) = PFinite s (of_int n)"
proof -
  define k where "k = bitlen n"
  from bitlen_bounds [OF assms(1)] have b: "2 ^ nat (k - 1) \<le> n" "n < 2 ^ nat k"
    by (simp_all add: k_def)
  have k: "1 \<le> k" unfolding k_def using assms(1) by (rule bitlen_positive)
  have k53: "k \<le> 53"
  proof (rule ccontr)
    assume "\<not> k \<le> 53"
    then have "53 \<le> nat (k - 1)" by simp
    then have "(2::int) ^ 53 \<le> 2 ^ nat (k - 1)"
      by (intro power_increasing) auto
    with b(1) assms(2) show False by linarith
  qed
  have lo: "power_int 2 (k - 1) \<le> (of_int n :: rat)"
    using pow2_of_int_le [OF b(1)] k by (simp add: power_int_def)
  have hi: "(of_int n :: rat) < power_int 2 (k - 1 + 1)"
    using of_int_less_pow2 [OF b(2)] k by (simp add: power_int_def)
  have ex: "k - 53 = max (k - 1 - 52) (- 1074)" using k by simp
  have pw: "(of_int n :: rat) / power_int 2 (k - 53) = of_int (n * 2 ^ nat (53 - k))"
    using k53 by (simp add: power_int_def field_simps)
  have r: "rne (of_int n / power_int 2 (k - 53)) = n * 2 ^ nat (53 - k)"
    unfolding pw by (rule rne_of_int)
  have v: "(of_int n :: rat) = of_int (n * 2 ^ nat (53 - k)) * power_int 2 (k - 53)"
    using pw by (simp add: field_simps)
  have "(of_int n :: rat) < 2 ^ 53"
    using assms(2) by (rule of_int_less_pow2)
  also have "\<dots> < (2::rat) ^ 1024"
    by (intro power_strict_increasing) auto
  finally have big: "(of_int n :: rat) < 2 ^ 1024" .
  show ?thesis
    by (rule round64_eval [OF lo hi ex r v big])
qed

lemma round64_zero: "round64 s 0 = PFinite s 0"
  by (simp add: round64_def)

text \<open>A rounding never gives NaN.\<close>

lemma round64_not_nan: "\<not> is_nan (round64 s q)"
  by (simp add: round64_def Let_def)

subsection \<open>The values of the literals\<close>

lemma M_TO_FT_value: "M_TO_FT = PFinite False (7387794900731109 / 2251799813685248)"
proof -
  have "round64 False (328084 / 100000) = PFinite False (7387794900731109 / 2251799813685248)"
    by (rule round64_nearest [where e = 1 and ex = "- 51" and m = 7387794900731109])
       simp_all
  then show ?thesis by (simp add: M_TO_FT_def float_of_rat_def)
qed

lemma KKGF_TO_KLBF_value: "KKGF_TO_KLBF = PFinite False (4964362905246771 / 2251799813685248)"
proof -
  have "round64 False (220462 / 100000) = PFinite False (4964362905246771 / 2251799813685248)"
    by (rule round64_nearest [where e = 1 and ex = "- 51" and m = 4964362905246771])
       simp_all
  then show ?thesis by (simp add: KKGF_TO_KLBF_def float_of_rat_def)
qed

lemma KNM_TO_KFTLB_value: "KNM_TO_KFTLB = PFinite False (1660841974181319 / 2251799813685248)"
proof -
  have "round64 False (737562 / 1000000) = PFinite False (1660841974181319 / 2251799813685248)"
    by (rule round64_nearest [where e = "- 1" and ex = "- 53" and m = 6643367896725276])
       simp_all
  then show ?thesis by (simp add: KNM_TO_KFTLB_def float_of_rat_def)
qed

lemma KPA_TO_PSI_value: "KPA_TO_PSI = PFinite False (326596541377281 / 2251799813685248)"
proof -
  have "round64 False (145038 / 1000000) = PFinite False (326596541377281 / 2251799813685248)"
    by (rule round64_nearest [where e = "- 3" and ex = "- 55" and m = 5225544662036496])
       simp_all
  then show ?thesis by (simp add: KPA_TO_PSI_def float_of_rat_def)
qed

lemma LMIN_TO_GPM_value: "LMIN_TO_GPM = PFinite False (4758899683046875 / 18014398509481984)"
proof -
  have "round64 False (264172 / 1000000) = PFinite False (4758899683046875 / 18014398509481984)"
    by (rule round64_nearest [where e = "- 2" and ex = "- 54" and m = 4758899683046875])
       simp_all
  then show ?thesis by (simp add: LMIN_TO_GPM_def float_of_rat_def)
qed

lemma GCM3_TO_PPG_value: "GCM3_TO_PPG = PFinite False (4698042541282217 / 562949953421312)"
proof -
  have "round64 False (834540 / 100000) = PFinite False (4698042541282217 / 562949953421312)"
    by (rule round64_nearest [where e = 3 and ex = "- 49" and m = 4698042541282217])
       simp_all
  then show ?thesis by (simp add: GCM3_TO_PPG_def float_of_rat_def)
qed

lemma M3_TO_BBL_value: "M3_TO_BBL = PFinite False (7081696493057805 / 1125899906842624)"
proof -
  have "round64 False (628981 / 100000) = PFinite False (7081696493057805 / 1125899906842624)"
    by (rule round64_nearest [where e = 2 and ex = "- 50" and m = 7081696493057805])
       simp_all
  then show ?thesis by (simp add: M3_TO_BBL_def float_of_rat_def)
qed

lemma MH_TO_FTHR_value: "MH_TO_FTHR = PFinite False (7387794900731109 / 2251799813685248)"
  using M_TO_FT_value by (simp add: MH_TO_FTHR_def M_TO_FT_def)

text \<open>The literal \<open>1e-10\<close>.\<close>

lemma tolerance_value:
  "float_of_rat (1 / 10 ^ 10) = PFinite False (7737125245533627 / 77371252455336267181195264)"
proof -
  have "round64 False (1 / 10 ^ 10) = PFinite False (7737125245533627 / 77371252455336267181195264)"
    by (rule round64_nearest [where e = "- 34" and ex = "- 86" and m = 7737125245533627])
       simp_all
  then show ?thesis by (simp add: float_of_rat_def)
qed


section \<open>Temperature conversion\<close>

lemma f_truediv_five: "f_truediv x (PFinite False 5) = Inr (f_quot x (PFinite False 5))"
  by (simp add: f_truediv_def fzero_def signed_def)

lemma celsius_to_fahrenheit_eq:
  "celsius_to_fahrenheit c =
     Inr (if f_eq c (PFinite False 0) then PFinite False 0
          else f_add (f_quot (f_mul c (PFinite False 9)) (PFinite False 5)) (PFinite False 32))"
  by (simp add: celsius_to_fahrenheit_def f_truediv_five)

text \<open>
  On a Celsius value that is a non-zero multiple of five, of either sign, no operation of
  the formula rounds, and the result is the float of the exact value of \<open>c * 9 / 5 + 32\<close>.
\<close>

lemma celsius_multiple_of_five:
  assumes "0 < k" "k < 2 ^ 40"
  shows "celsius_to_fahrenheit (PFinite s (of_int (5 * k))) =
           Inr (PFinite (signed s (of_int (9 * k)) + 32 < 0) \<bar>signed s (of_int (9 * k)) + 32\<bar>)"
proof -
  have k45: "0 < 45 * k" "45 * k < 2 ^ 53" using assms by simp_all
  have k9: "0 < 9 * k" "9 * k < 2 ^ 53" using assms by simp_all
  have m: "f_mul (PFinite s (of_int (5 * k))) (PFinite False 9) = PFinite s (of_int (45 * k))"
    using round64_int [OF k45, of s] by simp
  have d: "f_quot (PFinite s (of_int (45 * k))) (PFinite False 5) = PFinite s (of_int (9 * k))"
    using round64_int [OF k9, of s] by simp
  have nz: "\<not> f_eq (PFinite s (of_int (5 * k))) (PFinite False 0)"
    using assms by (simp add: signed_def)
  define v :: rat where "v = signed s (of_int (9 * k)) + 32"
  have "v = of_int (if s then 32 - 9 * k else 9 * k + 32)"
    by (simp add: v_def signed_def)
  moreover have xn: "(if s then 32 - 9 * k else 9 * k + 32) \<noteq> 0"
  proof (cases s)
    case True
    have "32 - 9 * k \<noteq> 0" by presburger
    with True show ?thesis by simp
  next
    case False
    have "9 * k + 32 \<noteq> 0" using assms(1) by linarith
    with False show ?thesis by simp
  qed
  ultimately have vn: "v \<noteq> 0" by (metis of_int_eq_0_iff)
  define n where "n = \<bar>if s then 32 - 9 * k else 9 * k + 32\<bar>"
  have av: "\<bar>v\<bar> = of_int n"
    by (simp add: v_def signed_def n_def)
  have n0: "0 < n"
    using xn by (simp add: n_def)
  have n53: "n < 2 ^ 53"
    using assms by (cases s) (simp_all add: n_def)
  note n = n0 n53
  have sum: "signed s (of_int (9 * k)) + signed False 32 = v"
    by (simp add: v_def signed_def)
  have a: "f_add (PFinite s (of_int (9 * k))) (PFinite False 32) = PFinite (v < 0) \<bar>v\<bar>"
    unfolding f_add.simps Let_def sum
    using vn round64_int [OF n, of "v < 0"] by (simp add: av)
  show ?thesis
    using nz by (simp only: celsius_to_fahrenheit_eq m d a if_False v_def)
qed

text \<open>
  C5. The Celsius-to-Fahrenheit conversion maps an input equal to \<open>0.0\<close> (the float
  comparison \<open>c == 0.0\<close>, which both zeros satisfy) to exactly \<open>0.0\<close>, not \<open>32.0\<close>, and
  every other input \<open>c\<close> to \<open>c * 9.0 / 5.0 + 32.0\<close> in float arithmetic; it never raises.
  On a non-zero multiple of five below \<open>5 * 2 ^ 40\<close> in magnitude the float operations
  are exact and the result is the exact value of \<open>c * 9 / 5 + 32\<close>, so \<open>100.0\<close> maps to
  \<open>212.0\<close>.
\<close>

theorem celsius_to_fahrenheit_spec:
  "(f_eq c (PFinite False 0) \<longrightarrow> celsius_to_fahrenheit c = Inr (PFinite False 0)) \<and>
   (\<not> f_eq c (PFinite False 0) \<longrightarrow>
      celsius_to_fahrenheit c =
        Inr (f_add (f_quot (f_mul c (PFinite False 9)) (PFinite False 5)) (PFinite False 32))) \<and>
   (0 < k \<and> k < 2 ^ 40 \<longrightarrow>
      celsius_to_fahrenheit (PFinite s (of_int (5 * k))) =
        Inr (PFinite (signed s (of_int (9 * k)) + 32 < 0) \<bar>signed s (of_int (9 * k)) + 32\<bar>))"
  using celsius_multiple_of_five [of k s] by (simp add: celsius_to_fahrenheit_eq)

theorem celsius_to_fahrenheit_spec_witness:
  "celsius_to_fahrenheit (PFinite False 0) = Inr (PFinite False 0) \<and>
   celsius_to_fahrenheit (PFinite True 0) = Inr (PFinite False 0) \<and>
   celsius_to_fahrenheit (PFinite False 100) = Inr (PFinite False 212) \<and>
   celsius_to_fahrenheit (PFinite True 40) = Inr (PFinite True 40)"
proof -
  have z: "f_eq (PFinite False 0) (PFinite False 0)" "f_eq (PFinite True 0) (PFinite False 0)"
    by (simp_all add: signed_def)
  have a: "celsius_to_fahrenheit (PFinite False 0) = Inr (PFinite False 0)"
    using celsius_to_fahrenheit_spec [of "PFinite False 0" 1 False] z by blast
  have b: "celsius_to_fahrenheit (PFinite True 0) = Inr (PFinite False 0)"
    using celsius_to_fahrenheit_spec [of "PFinite True 0" 1 False] z by blast
  have c: "celsius_to_fahrenheit (PFinite False 100) = Inr (PFinite False 212)"
    using celsius_to_fahrenheit_spec [of "PFinite False 0" 20 False] by (simp add: signed_def)
  have d: "celsius_to_fahrenheit (PFinite True 40) = Inr (PFinite True 40)"
    using celsius_to_fahrenheit_spec [of "PFinite False 0" 8 True] by (simp add: signed_def)
  show ?thesis using a b c d by simp
qed

section \<open>Field extraction\<close>

lemmas text_eval = strip_def is_space_def lower_def lower_char_def startswith_def

lemmas float_eval =
  py_float_def to_ascii_def is_digit_def c_strip_def is_c_space_def parse_decimal_def
  parse_exponent_def parse_inf_or_nan_def digits_val_def digit_val_def

lemma round64_numeral:
  "numeral w < (2::int) ^ 53 \<Longrightarrow> round64 s (numeral w) = PFinite s (numeral w)"
  using round64_int [of "numeral w" s] by simp

lemma round64_one: "round64 s 1 = PFinite s 1"
  using round64_int [of 1 s] by simp

lemma f_ne_self: "f_ne v v \<longleftrightarrow> is_nan v"
  by (cases v) (simp_all add: f_ne_def)

lemma safe_float_not_nan: "\<not> is_nan (safe_float flds idx)"
  by (simp add: safe_float_def Let_def f_ne_self split: option.split)

text \<open>What \<open>safe_float\<close> returns, case by case.\<close>

lemma safe_float_cases:
  "safe_float flds idx =
     (if idx < 0 \<or> int (length flds) \<le> idx then PFinite False 0
      else if strip (flds ! nat idx) = [] then PFinite False 0
      else if lower (strip (flds ! nat idx)) \<in> {''nan'', ''null'', ''-''} then PFinite False 0
      else case py_float (strip (flds ! nat idx)) of
             None \<Rightarrow> PFinite False 0
           | Some v \<Rightarrow> if is_nan v then PFinite False 0 else v)"
  by (auto simp add: safe_float_def Let_def f_ne_self lower_def split: option.split)

lemma f_mul_not_nan:
  assumes "\<not> is_nan x" "r \<noteq> 0"
  shows "\<not> is_nan (f_mul x (PFinite t r))"
  using assms by (cases x) (simp_all add: round64_not_nan)

lemma f_quot_not_nan:
  assumes "\<not> is_nan x"
  shows "\<not> is_nan (f_quot x (PFinite t r))"
  using assms by (cases x) (simp_all add: round64_not_nan)

lemma f_add_not_nan:
  assumes "\<not> is_nan x"
  shows "\<not> is_nan (f_add x (PFinite t r))"
  using assms by (cases x) (simp_all add: round64_not_nan Let_def)

lemma celsius_not_nan:
  assumes "\<not> is_nan c"
  shows "\<exists>y. celsius_to_fahrenheit c = Inr y \<and> \<not> is_nan y"
proof -
  have "\<not> is_nan (f_mul c (PFinite False 9))"
    using assms by (rule f_mul_not_nan) simp
  then have "\<not> is_nan (f_quot (f_mul c (PFinite False 9)) (PFinite False 5))"
    by (rule f_quot_not_nan)
  then have "\<not> is_nan (f_add (f_quot (f_mul c (PFinite False 9)) (PFinite False 5)) (PFinite False 32))"
    by (rule f_add_not_nan)
  then show ?thesis
    by (simp add: celsius_to_fahrenheit_eq)
qed

lemmas unit_values =
  M_TO_FT_value MH_TO_FTHR_value KKGF_TO_KLBF_value KNM_TO_KFTLB_value KPA_TO_PSI_value
  LMIN_TO_GPM_value GCM3_TO_PPG_value M3_TO_BBL_value

text \<open>The construction of a record never raises, and no field of the record is NaN.\<close>

lemma make_record_not_nan:
  "\<exists>r. make_record col flds = Inr r \<and> list_all (\<lambda>v. \<not> is_nan v) (record_fields r)"
proof -
  obtain t_in where ti: "celsius_to_fahrenheit (safe_float flds (ColumnMap.temp_in col)) = Inr t_in"
    "\<not> is_nan t_in"
    using celsius_not_nan [OF safe_float_not_nan] by blast
  obtain t_out where to: "celsius_to_fahrenheit (safe_float flds (ColumnMap.temp_out col)) = Inr t_out"
    "\<not> is_nan t_out"
    using celsius_not_nan [OF safe_float_not_nan] by blast
  have m: "\<And>i t r. r \<noteq> 0 \<Longrightarrow> \<not> is_nan (f_mul (safe_float flds i) (PFinite t r))"
    by (rule f_mul_not_nan [OF safe_float_not_nan])
  show ?thesis
    by (simp add: make_record_def Let_def ti to record_fields_def unit_values m
        safe_float_not_nan)
qed

lemma load_row_total:
  "\<exists>st'. load_row col flds st = Inr st'"
proof -
  obtain r where "make_record col flds = Inr r"
    using make_record_not_nan by blast
  then show ?thesis
    by (cases st) (simp add: load_row_def)
qed

lemma load_row_not_nan:
  assumes "load_row col flds (recs, k) = Inr (recs', k')"
    and "list_all (\<lambda>r. list_all (\<lambda>v. \<not> is_nan v) (record_fields r)) recs"
  shows "list_all (\<lambda>r. list_all (\<lambda>v. \<not> is_nan v) (record_fields r)) recs'"
proof -
  obtain r where r: "make_record col flds = Inr r"
    "list_all (\<lambda>v. \<not> is_nan v) (record_fields r)"
    using make_record_not_nan by blast
  show ?thesis
    using assms r by (auto simp: load_row_def split: if_splits)
qed

lemma load_rows_not_nan:
  assumes "load_rows col rows st = Inr st'"
    and "list_all (\<lambda>r. list_all (\<lambda>v. \<not> is_nan v) (record_fields r)) (fst st)"
  shows "list_all (\<lambda>r. list_all (\<lambda>v. \<not> is_nan v) (record_fields r)) (fst st')"
  using assms
proof (induction rows arbitrary: st)
  case Nil
  then show ?case by simp
next
  case (Cons flds rows)
  obtain st1 where s1: "load_row col flds st = Inr st1"
    using load_row_total by blast
  with Cons.prems(1) have rest: "load_rows col rows st1 = Inr st'" by simp
  have "list_all (\<lambda>r. list_all (\<lambda>v. \<not> is_nan v) (record_fields r)) (fst st1)"
    using load_row_not_nan [of col flds "fst st" "snd st" "fst st1" "snd st1"] s1 Cons.prems(2)
    by simp
  with rest show ?case by (rule Cons.IH)
qed

lemma load_rows_total: "\<exists>st'. load_rows col rows st = Inr st'"
proof (induction rows arbitrary: st)
  case Nil
  show ?case by simp
next
  case (Cons flds rows)
  obtain st1 where "load_row col flds st = Inr st1"
    using load_row_total by blast
  with Cons.IH [of st1] show ?case by simp
qed

text \<open>
  C2 (as amended). \<open>safe_float\<close> returns \<open>0.0\<close> when the index is absent or out of
  range, when the text is empty, a null marker or not a float, and when it parses to NaN;
  otherwise it returns the parsed float, which is never NaN but may be an infinity.
  Consequently no field of a record produced by ingestion is NaN.
\<close>

theorem safe_float_never_nan:
  "\<not> is_nan (safe_float flds idx) \<and>
   (idx < 0 \<or> int (length flds) \<le> idx \<or> py_float (strip (flds ! nat idx)) = None
      \<or> py_float (strip (flds ! nat idx)) = Some PNaN
      \<longrightarrow> safe_float flds idx = PFinite False 0) \<and>
   (0 \<le> idx \<and> idx < int (length flds) \<and> strip (flds ! nat idx) \<noteq> [] \<and>
      lower (strip (flds ! nat idx)) \<notin> {''nan'', ''null'', ''-''} \<and>
      py_float (strip (flds ! nat idx)) = Some v \<and> \<not> is_nan v
      \<longrightarrow> safe_float flds idx = v) \<and>
   (load_csv rows = Inr recs \<longrightarrow>
      list_all (\<lambda>r. list_all (\<lambda>v. \<not> is_nan v) (record_fields r)) recs)"
proof -
  have a: "\<not> is_nan (safe_float flds idx)" by (rule safe_float_not_nan)
  have b: "idx < 0 \<or> int (length flds) \<le> idx \<or> py_float (strip (flds ! nat idx)) = None
      \<or> py_float (strip (flds ! nat idx)) = Some PNaN
      \<longrightarrow> safe_float flds idx = PFinite False 0"
    by (auto simp: safe_float_cases)
  have c: "0 \<le> idx \<and> idx < int (length flds) \<and> strip (flds ! nat idx) \<noteq> [] \<and>
      lower (strip (flds ! nat idx)) \<notin> {''nan'', ''null'', ''-''} \<and>
      py_float (strip (flds ! nat idx)) = Some v \<and> \<not> is_nan v
      \<longrightarrow> safe_float flds idx = v"
    by (auto simp: safe_float_cases)
  have d: "load_csv rows = Inr recs \<longrightarrow>
      list_all (\<lambda>r. list_all (\<lambda>v. \<not> is_nan v) (record_fields r)) recs"
  proof
    assume l: "load_csv rows = Inr recs"
    then obtain header body where rows: "rows = header # body"
      by (cases rows) (simp_all add: load_csv_def)
    obtain st' where st: "load_rows (map_columns header) body ([], 0) = Inr st'"
      using load_rows_total by blast
    with l rows have "recs = fst st'"
      by (cases st') (simp add: load_csv_def)
    with load_rows_not_nan [OF st] show
      "list_all (\<lambda>r. list_all (\<lambda>v. \<not> is_nan v) (record_fields r)) recs"
      by simp
  qed
  show ?thesis using a b c d by blast
qed

theorem safe_float_never_nan_witness:
  "\<not> is_nan (safe_float [''7'', ''x'', ''nan''] 0) \<and>
   safe_float [''7'', ''x'', ''nan''] 0 = PFinite False 7 \<and>
   safe_float [''7'', ''x'', ''nan''] 1 = PFinite False 0 \<and>
   safe_float [''7'', ''x'', ''nan''] 5 = PFinite False 0 \<and>
   load_csv [[''Bit Depth m'']] = Inr [] \<and>
   list_all (\<lambda>r. list_all (\<lambda>v. \<not> is_nan v) (record_fields r)) []"
proof -
  have p7: "py_float ''7'' = Some (PFinite False 7)"
    by (simp add: float_eval round64_numeral)
  have px: "py_float ''x'' = None"
    by (simp add: float_eval text_eval)
  have s: "strip ''7'' = ''7''" "strip ''x'' = ''x''"
    by (simp_all add: text_eval)
  have l: "load_csv [[''Bit Depth m'']] = Inr []"
    by (simp add: load_csv_def)
  have lw: "lower ''7'' \<notin> {''nan'', ''null'', ''-''}"
    by (simp add: text_eval)
  have v0: "safe_float [''7'', ''x'', ''nan''] 0 = PFinite False 7"
    using safe_float_never_nan [of "[''7'', ''x'', ''nan'']" 0 "PFinite False 7"
        "[[''Bit Depth m'']]" "[]"] p7 s lw
    by simp
  have v1: "safe_float [''7'', ''x'', ''nan''] 1 = PFinite False 0"
    using safe_float_never_nan [of "[''7'', ''x'', ''nan'']" 1 "PFinite False 7"
        "[[''Bit Depth m'']]" "[]"] px s
    by simp
  have v5: "safe_float [''7'', ''x'', ''nan''] 5 = PFinite False 0"
    using safe_float_never_nan [of "[''7'', ''x'', ''nan'']" 5 "PFinite False 7"
        "[[''Bit Depth m'']]" "[]"]
    by simp
  show ?thesis
    using safe_float_never_nan [of "[''7'', ''x'', ''nan'']" 0 "PFinite False 7"
        "[[''Bit Depth m'']]" "[]"] v0 v1 v5 l
    by simp
qed

section \<open>Column mapping\<close>

text \<open>The \<open>if\<close>/\<open>elif\<close> chain is the rule list: the first rule that matches decides.\<close>

lemma map_column_first_match:
  "map_column m i col =
     (case first_match (lower (strip col)) of None \<Rightarrow> m | Some f \<Rightarrow> assign f i m)"
  by (simp add: map_column_def first_match_def rules_def Let_def)

lemma index_of_assign: "index_of f (assign g i m) = (if f = g then i else index_of f m)"
  by (cases f; cases g; simp)

lemma index_of_map_column:
  "index_of f (map_column m i col) =
     (if first_match (lower (strip col)) = Some f then i else index_of f m)"
  by (simp add: map_column_first_match index_of_assign split: option.split)

lemma map_columns_loop_snoc:
  "map_columns_loop m i (cols @ [c]) =
     map_column (map_columns_loop m i cols) (i + int (length cols)) c"
  by (induction cols arbitrary: m i) (simp_all add: algebra_simps)

lemma columns_for_snoc:
  "columns_for f (cols @ [c]) =
     columns_for f cols @ (if first_match (lower (strip c)) = Some f then [length cols] else [])"
proof -
  have "filter (\<lambda>j. first_match (lower (strip ((cols @ [c]) ! j))) = Some f) [0..<length cols]
      = filter (\<lambda>j. first_match (lower (strip (cols ! j))) = Some f) [0..<length cols]"
    by (rule filter_cong) (simp_all add: nth_append)
  then show ?thesis
    by (simp add: columns_for_def)
qed

lemma index_of_map_columns_loop:
  "index_of f (map_columns_loop m i cols) =
     (if columns_for f cols = [] then index_of f m else i + int (last (columns_for f cols)))"
proof (induction cols rule: rev_induct)
  case Nil
  show ?case by (simp add: columns_for_def)
next
  case (snoc c cols)
  show ?case
    by (simp add: map_columns_loop_snoc index_of_map_column columns_for_snoc snoc.IH)
qed

text \<open>
  C6. Column mapping assigns a header column to at most one field, the field of the first
  rule in the fixed priority order that matches the column's stripped, lower-cased text;
  the other fields keep their value. The index recorded for a field after the whole header
  is the index of the last header column whose first matching rule selects that field,
  and \<open>-1\<close> when there is none.
\<close>

theorem map_columns_last_match_wins:
  "map_column m i col =
     (case first_match (lower (strip col)) of None \<Rightarrow> m | Some g \<Rightarrow> assign g i m) \<and>
   index_of f (map_column m i col) =
     (if first_match (lower (strip col)) = Some f then i else index_of f m) \<and>
   index_of f (map_columns header) =
     (if columns_for f header = [] then - 1 else int (last (columns_for f header)))"
proof -
  have "index_of f ColumnMap_default = - 1"
    by (cases f) (simp_all add: ColumnMap_default_def)
  then show ?thesis
    by (simp add: map_column_first_match [symmetric] index_of_map_column map_columns_def
        index_of_map_columns_loop)
qed

theorem map_columns_last_match_wins_witness:
  "columns_for F_bit_depth [''Time Time'', '' Bit Depth m'', ''Total Depth m'', ''bit depth x'']
     = [1, 3] \<and>
   index_of F_bit_depth
     (map_columns [''Time Time'', '' Bit Depth m'', ''Total Depth m'', ''bit depth x'']) = 3 \<and>
   columns_for F_wob [''Time Time'', '' Bit Depth m'', ''Total Depth m'', ''bit depth x''] = [] \<and>
   index_of F_wob
     (map_columns [''Time Time'', '' Bit Depth m'', ''Total Depth m'', ''bit depth x'']) = - 1 \<and>
   first_match (lower (strip '' Bit Depth m'')) = Some F_bit_depth \<and>
   map_column ColumnMap_default 1 '' Bit Depth m'' = assign F_bit_depth 1 ColumnMap_default"
proof -
  let ?h = "[''Time Time'', '' Bit Depth m'', ''Total Depth m'', ''bit depth x'']"
  have c1: "columns_for F_bit_depth ?h = [1, 3]"
    by code_simp
  have c2: "columns_for F_wob ?h = []"
    by code_simp
  have c3: "first_match (lower (strip '' Bit Depth m'')) = Some F_bit_depth"
    by code_simp
  have a: "index_of F_bit_depth (map_columns ?h) = 3"
    using map_columns_last_match_wins [of ColumnMap_default 1 "'' Bit Depth m''"
        F_bit_depth ?h] c1 by simp
  have b: "index_of F_wob (map_columns ?h) = - 1"
    using map_columns_last_match_wins [of ColumnMap_default 1 "'' Bit Depth m''" F_wob ?h] c2
    by simp
  have c: "map_column ColumnMap_default 1 '' Bit Depth m'' = assign F_bit_depth 1 ColumnMap_default"
    using map_columns_last_match_wins [of ColumnMap_default 1 "'' Bit Depth m''"
        F_bit_depth ?h] c3 by simp
  show ?thesis using c1 c2 c3 a b c by simp
qed

section \<open>Frame encoding\<close>

subsection \<open>Digits\<close>

lemma digit_char_is_digit:
  assumes "d < 10"
  shows "is_digit (digit_char d)"
proof -
  from assms have "d = 0 \<or> d = 1 \<or> d = 2 \<or> d = 3 \<or> d = 4 \<or> d = 5 \<or> d = 6
    \<or> d = 7 \<or> d = 8 \<or> d = 9"
    by presburger
  then show ?thesis
    by (elim disjE) (simp_all add: digit_char_def is_digit_def)
qed

lemma nat_digits_small: "n < 10 \<Longrightarrow> nat_digits n = [digit_char n]"
  by (simp add: nat_digits.simps)

lemma nat_digits_big:
  "10 \<le> n \<Longrightarrow> nat_digits n = nat_digits (n div 10) @ [digit_char (n mod 10)]"
  by (subst nat_digits.simps) simp

lemma nat_digits_are_digits: "list_all is_digit (nat_digits n)"
proof (induction n rule: nat_digits.induct)
  case (1 n)
  show ?case
  proof (cases "n < 10")
    case True
    then show ?thesis by (simp add: nat_digits_small digit_char_is_digit)
  next
    case False
    then have "list_all is_digit (nat_digits (n div 10))" by (rule "1.IH")
    with False show ?thesis by (simp add: nat_digits_big digit_char_is_digit)
  qed
qed

lemma nat_digits_not_empty: "nat_digits n \<noteq> []"
  by (cases "n < 10") (simp_all add: nat_digits_small nat_digits_big)

lemma is_digit_ascii: "is_digit c \<Longrightarrow> (of_char c :: nat) < 128"
  by (auto simp: is_digit_def)

lemma is_digit_not_special:
  "is_digit c \<Longrightarrow> c \<noteq> CHR 0x0D \<and> c \<noteq> CHR ''-''"
  by (auto simp: is_digit_def)

subsection \<open>The format of one value\<close>

text \<open>A finite value is printed as sign, digits, point and two digits.\<close>

lemma format_2f_finite:
  "\<exists>ds a b. format_2f (PFinite s q) = (if s then ''-'' else '''') @ ds @ ''.'' @ [a, b] \<and>
     ds \<noteq> [] \<and> list_all is_digit ds \<and> is_digit a \<and> is_digit b"
proof -
  define n where "n = nat (rne (q * 100))"
  have "n mod 100 div 10 < 10" by simp
  then have a: "is_digit (digit_char (n mod 100 div 10))" by (rule digit_char_is_digit)
  have "n mod 10 < 10" by simp
  then have b: "is_digit (digit_char (n mod 10))" by (rule digit_char_is_digit)
  have "format_2f (PFinite s q) = (if s then ''-'' else '''') @ nat_digits (n div 100) @ ''.''
      @ [digit_char (n mod 100 div 10), digit_char (n mod 10)]"
    by (simp add: format_2f_def Let_def n_def)
  with a b nat_digits_not_empty nat_digits_are_digits show ?thesis by blast
qed

lemma two_decimalsI:
  assumes "ds \<noteq> []" "list_all is_digit ds" "is_digit a" "is_digit b"
  shows "two_decimals ((if s then ''-'' else '''') @ ds @ ''.'' @ [a, b])"
proof -
  let ?u = "ds @ ''.'' @ [a, b]"
  obtain d ds' where ds: "ds = d # ds'" using assms(1) by (cases ds) auto
  with assms(2) have "is_digit d" by simp
  then have d: "d \<noteq> CHR ''-''" using is_digit_not_special by blast
  have u: "(if take 1 ((if s then ''-'' else '''') @ ?u) = ''-''
            then drop 1 ((if s then ''-'' else '''') @ ?u)
            else (if s then ''-'' else '''') @ ?u) = ?u"
    using d by (simp add: ds)
  have l: "length ?u = length ds + 3" "1 \<le> length ds"
    by (simp_all add: ds)
  have t: "take (length ds) ?u = ds" by simp
  have e: "?u ! length ds = CHR ''.''" "?u ! (length ds + 1) = a" "?u ! (length ds + 2) = b"
    by (simp_all add: nth_append)
  have "4 \<le> length ?u \<and> list_all is_digit (take (length ?u - 3) ?u) \<and>
      ?u ! (length ?u - 3) = CHR ''.'' \<and> is_digit (?u ! (length ?u - 2)) \<and>
      is_digit (?u ! (length ?u - 1))"
    unfolding l(1) using l(2) assms t e by simp
  then show ?thesis
    unfolding two_decimals_def Let_def u .
qed

lemma format_2f_two_decimals:
  assumes "is_finite x"
  shows "two_decimals (format_2f x)"
proof -
  obtain s q where x: "x = PFinite s q" using assms by (cases x) auto
  obtain ds a b where f: "format_2f (PFinite s q) = (if s then ''-'' else '''') @ ds @ ''.'' @ [a, b]"
    "ds \<noteq> []" "list_all is_digit ds" "is_digit a" "is_digit b"
    using format_2f_finite by blast
  show ?thesis
    unfolding x f(1) using f(2-5) by (rule two_decimalsI)
qed

text \<open>Whatever the value, its text is ASCII and holds no carriage return.\<close>

lemma format_2f_chars:
  "list_all (\<lambda>c. (of_char c :: nat) < 128 \<and> c \<noteq> CHR 0x0D) (format_2f x)"
proof (cases x)
  case (PFinite s q)
  obtain ds a b where f: "format_2f (PFinite s q) = (if s then ''-'' else '''') @ ds @ ''.'' @ [a, b]"
    "ds \<noteq> []" "list_all is_digit ds" "is_digit a" "is_digit b"
    using format_2f_finite by blast
  have "list_all (\<lambda>c. (of_char c :: nat) < 128 \<and> c \<noteq> CHR 0x0D) ds"
    using f(3) is_digit_ascii is_digit_not_special by (induction ds) auto
  then show ?thesis
    unfolding PFinite f(1) using f(4,5) is_digit_ascii is_digit_not_special by auto
next
  case (PInf s)
  then show ?thesis by (simp add: format_2f_def)
next
  case PNaN
  then show ?thesis by (simp add: format_2f_def)
qed

subsection \<open>The lines of a frame\<close>

lemmas wits_codes =
  WITS_BLOCK_POS_def WITS_BIT_DEPTH_def WITS_HOLE_DEPTH_def WITS_ROP_def WITS_HOOK_LOAD_def
  WITS_WOB_def WITS_RPM_def WITS_TORQUE_def WITS_SPP_def WITS_PUMP_SPM_def WITS_FLOW_IN_def
  WITS_PIT_VOL_def WITS_MW_IN_def WITS_MW_OUT_def WITS_TEMP_IN_def WITS_TEMP_OUT_def
  WITS_GAS_def WITS_ECD_def

lemma join_terminated:
  "ls \<noteq> [] \<Longrightarrow> join sep ls @ sep = concat (map (\<lambda>l. l @ sep) ls)"
  by (induction sep ls rule: join.induct) simp_all

lemma lines_of_line:
  assumes "CHR 0x0D \<notin> set l"
  shows "lines_of cur (l @ CRLF @ rest) = (cur @ l) # lines_of [] rest"
  using assms
proof (induction l arbitrary: cur)
  case Nil
  show ?case by (simp add: CRLF_def)
next
  case (Cons c l)
  obtain d ds where t: "l @ CRLF @ rest = d # ds"
    by (cases "l @ CRLF @ rest") (simp_all add: CRLF_def)
  have "lines_of cur ((c # l) @ CRLF @ rest) = lines_of (cur @ [c]) (l @ CRLF @ rest)"
    using Cons.prems by (auto simp: t)
  also have "\<dots> = ((cur @ [c]) @ l) # lines_of [] rest"
    using Cons.prems by (intro Cons.IH) simp
  finally show ?case by simp
qed

lemma lines_of_terminated:
  assumes "list_all (\<lambda>l. CHR 0x0D \<notin> set l) ls"
  shows "lines_of [] (concat (map (\<lambda>l. l @ CRLF) ls)) = ls"
  using assms
proof (induction ls)
  case Nil
  show ?case by simp
next
  case (Cons l ls)
  have "lines_of [] (concat (map (\<lambda>l. l @ CRLF) (l # ls)))
      = lines_of [] (l @ CRLF @ concat (map (\<lambda>l. l @ CRLF) ls))"
    by simp
  also have "\<dots> = ([] @ l) # lines_of [] (concat (map (\<lambda>l. l @ CRLF) ls))"
    using Cons.prems by (intro lines_of_line) simp
  finally show ?case using Cons by simp
qed

lemma items_length: "length (items r) = 18"
  by (simp add: items_def)

lemma item_line_chars:
  assumes "(code, v) \<in> set (items r)"
  shows "list_all (\<lambda>c. (of_char c :: nat) < 128 \<and> c \<noteq> CHR 0x0D) (code @ format_2f v)"
proof -
  have "list_all (\<lambda>c. (of_char c :: nat) < 128 \<and> c \<noteq> CHR 0x0D) code"
    using assms by (auto simp: items_def wits_codes)
  with format_2f_chars show ?thesis by simp
qed

lemma frame_lines_chars:
  "list_all (list_all (\<lambda>c. (of_char c :: nat) < 128 \<and> c \<noteq> CHR 0x0D)) (frame_lines r)"
proof -
  have "\<And>p. p \<in> set (items r) \<Longrightarrow>
      list_all (\<lambda>c. (of_char c :: nat) < 128 \<and> c \<noteq> CHR 0x0D) (fst p @ format_2f (snd p))"
    using item_line_chars [of _ _ r] by (metis prod.collapse)
  then have "\<And>l. l \<in> set (map (\<lambda>(code, v). code @ format_2f v) (items r)) \<Longrightarrow>
      list_all (\<lambda>c. (of_char c :: nat) < 128 \<and> c \<noteq> CHR 0x0D) l"
    by (auto simp: case_prod_beta)
  then show ?thesis
    by (simp add: frame_lines_def list_all_iff)
qed

text \<open>The encoder never raises: every character of a frame is ASCII.\<close>

lemma to_wits_frame_total:
  "to_wits_frame r = Inr (concat (map (\<lambda>l. l @ CRLF) (frame_lines r)))"
proof -
  have ne: "frame_lines r \<noteq> []" by (simp add: frame_lines_def)
  have "list_all (\<lambda>c. (of_char c :: nat) < 128) (concat (map (\<lambda>l. l @ CRLF) (frame_lines r)))"
    using frame_lines_chars [of r]
    by (auto simp: list_all_iff CRLF_def)
  then show ?thesis
    by (simp add: to_wits_frame_def join_terminated [OF ne] encode_ascii_def)
qed

lemma frame_lines_split:
  "lines_of [] (concat (map (\<lambda>l. l @ CRLF) (frame_lines r))) = frame_lines r"
proof (rule lines_of_terminated)
  show "list_all (\<lambda>l. CHR 0x0D \<notin> set l) (frame_lines r)"
    using frame_lines_chars [of r] by (auto simp: list_all_iff)
qed

text \<open>
  C1. For every record whose 18 fields are finite, the frame encoder returns (it never
  raises) the byte string made of the line \<open>&&\<close>, 18 interior lines and the line \<open>!!\<close>,
  every line terminated by CRLF; cut at its CRLFs the frame reads back as exactly these
  20 lines. The interior lines are, in this order, the codes 0108, 0110, 0113, 0114,
  0116, 0117, 0118, 0119, 0120, 0121, 0124, 0125, 0150, 0126, 0127, 0140, 0123, 0105,
  each immediately followed by the value of bit depth, hole depth, rate of penetration,
  hook load, weight on bit, rotary speed, torque, standpipe pressure, pump rate, flow in,
  mud weight in, mud weight out, equivalent circulating density, temperature in,
  temperature out, gas, pit volume and block position, printed with exactly two decimal
  digits. The encoder is a function of the record alone, so encoding the same record
  twice gives the same bytes.
\<close>

theorem to_wits_frame_well_formed:
  assumes "list_all is_finite (record_fields r)"
  shows "to_wits_frame r =
           Inr (''&&'' @ CRLF
                @ concat (map (\<lambda>(code, v). code @ format_2f v @ CRLF)
                   [(''0108'', bit_depth r), (''0110'', hole_depth r), (''0113'', rop r),
                    (''0114'', hook_load r), (''0116'', wob r), (''0117'', rpm r),
                    (''0118'', torque r), (''0119'', spp r), (''0120'', pump_spm r),
                    (''0121'', flow_in r), (''0124'', mw_in r), (''0125'', mw_out r),
                    (''0150'', ecd r), (''0126'', temp_in r), (''0127'', temp_out r),
                    (''0140'', gas r), (''0123'', pit_volume r), (''0105'', block_pos r)])
                @ ''!!'' @ CRLF) \<and>
         (\<exists>b interior. to_wits_frame r = Inr b \<and>
            lines_of [] b = [''&&''] @ interior @ [''!!''] \<and> length interior = 18 \<and>
            interior = map (\<lambda>(code, v). code @ format_2f v) (items r)) \<and>
         list_all (\<lambda>(code, v). length code = 4 \<and> list_all is_digit code \<and>
                     two_decimals (format_2f v)) (items r)"
proof -
  have a: "to_wits_frame r =
           Inr (''&&'' @ CRLF
                @ concat (map (\<lambda>(code, v). code @ format_2f v @ CRLF)
                   [(''0108'', bit_depth r), (''0110'', hole_depth r), (''0113'', rop r),
                    (''0114'', hook_load r), (''0116'', wob r), (''0117'', rpm r),
                    (''0118'', torque r), (''0119'', spp r), (''0120'', pump_spm r),
                    (''0121'', flow_in r), (''0124'', mw_in r), (''0125'', mw_out r),
                    (''0150'', ecd r), (''0126'', temp_in r), (''0127'', temp_out r),
                    (''0140'', gas r), (''0123'', pit_volume r), (''0105'', block_pos r)])
                @ ''!!'' @ CRLF)"
    by (simp add: to_wits_frame_total frame_lines_def items_def wits_codes)
  have b: "\<exists>b interior. to_wits_frame r = Inr b \<and>
            lines_of [] b = [''&&''] @ interior @ [''!!''] \<and> length interior = 18 \<and>
            interior = map (\<lambda>(code, v). code @ format_2f v) (items r)"
  proof (intro exI conjI)
    show "to_wits_frame r = Inr (concat (map (\<lambda>l. l @ CRLF) (frame_lines r)))"
      by (rule to_wits_frame_total)
    show "lines_of [] (concat (map (\<lambda>l. l @ CRLF) (frame_lines r)))
        = [''&&''] @ map (\<lambda>(code, v). code @ format_2f v) (items r) @ [''!!'']"
      by (simp add: frame_lines_split) (simp add: frame_lines_def)
    show "length (map (\<lambda>(code, v). code @ format_2f v) (items r)) = 18"
      by (simp add: items_length)
    show "map (\<lambda>(code, v). code @ format_2f v) (items r)
        = map (\<lambda>(code, v). code @ format_2f v) (items r)" ..
  qed
  have fin: "\<And>v. v \<in> set (record_fields r) \<Longrightarrow> two_decimals (format_2f v)"
    using assms format_2f_two_decimals by (auto simp: list_all_iff)
  have c: "list_all (\<lambda>(code, v). length code = 4 \<and> list_all is_digit code \<and>
                     two_decimals (format_2f v)) (items r)"
    using fin by (simp add: items_def wits_codes record_fields_def is_digit_def)
  show ?thesis using a b c by blast
qed

lemma rne_numeral: "rne (numeral w) = numeral w"
  using rne_of_int [of "numeral w"] by simp

lemma rne_zero: "rne 0 = 0"
  using rne_of_int [of 0] by simp

lemmas format_eval =
  format_2f_def Let_def rne_numeral rne_zero nat_digits_small nat_digits_big digit_char_def

theorem to_wits_frame_well_formed_witness:
  "list_all is_finite (record_fields
     \<lparr>bit_depth = PFinite False (3281 / 2), hole_depth = PFinite False 1650,
      wob = PFinite False 22, torque = PFinite False 0, rpm = PFinite False 120,
      rop = PFinite False (61 / 4), hook_load = PFinite False 0, spp = PFinite False 290,
      flow_in = PFinite False 0, mw_in = PFinite False 0, mw_out = PFinite False 0,
      ecd = PFinite False 0, temp_in = PFinite False 212, temp_out = PFinite False 0,
      gas = PFinite False 0, pump_spm = PFinite False 0, pit_volume = PFinite False 0,
      block_pos = PFinite True (3 / 4)\<rparr>) \<and>
   to_wits_frame
     \<lparr>bit_depth = PFinite False (3281 / 2), hole_depth = PFinite False 1650,
      wob = PFinite False 22, torque = PFinite False 0, rpm = PFinite False 120,
      rop = PFinite False (61 / 4), hook_load = PFinite False 0, spp = PFinite False 290,
      flow_in = PFinite False 0, mw_in = PFinite False 0, mw_out = PFinite False 0,
      ecd = PFinite False 0, temp_in = PFinite False 212, temp_out = PFinite False 0,
      gas = PFinite False 0, pump_spm = PFinite False 0, pit_volume = PFinite False 0,
      block_pos = PFinite True (3 / 4)\<rparr> =
     Inr (concat (map (\<lambda>l. l @ CRLF)
       [''&&'', ''01081640.50'', ''01101650.00'', ''011315.25'', ''01140.00'', ''011622.00'',
        ''0117120.00'', ''01180.00'', ''0119290.00'', ''01200.00'', ''01210.00'',
        ''01240.00'', ''01250.00'', ''01500.00'', ''0126212.00'', ''01270.00'', ''01400.00'',
        ''01230.00'', ''0105-0.75'', ''!!'']))"
proof -
  let ?r = "\<lparr>bit_depth = PFinite False (3281 / 2), hole_depth = PFinite False 1650,
      wob = PFinite False 22, torque = PFinite False 0, rpm = PFinite False 120,
      rop = PFinite False (61 / 4), hook_load = PFinite False 0, spp = PFinite False 290,
      flow_in = PFinite False 0, mw_in = PFinite False 0, mw_out = PFinite False 0,
      ecd = PFinite False 0, temp_in = PFinite False 212, temp_out = PFinite False 0,
      gas = PFinite False 0, pump_spm = PFinite False 0, pit_volume = PFinite False 0,
      block_pos = PFinite True (3 / 4)\<rparr>"
  have fin: "list_all is_finite (record_fields ?r)"
    by (simp add: record_fields_def)
  have f: "format_2f (PFinite False (3281 / 2)) = ''1640.50''"
    "format_2f (PFinite False 1650) = ''1650.00''"
    "format_2f (PFinite False 22) = ''22.00''"
    "format_2f (PFinite False 0) = ''0.00''"
    "format_2f (PFinite False 120) = ''120.00''"
    "format_2f (PFinite False (61 / 4)) = ''15.25''"
    "format_2f (PFinite False 290) = ''290.00''"
    "format_2f (PFinite False 212) = ''212.00''"
    "format_2f (PFinite True (3 / 4)) = ''-0.75''"
    by (simp_all add: format_eval)
  from to_wits_frame_well_formed [OF fin]
  have "to_wits_frame ?r =
           Inr (''&&'' @ CRLF
                @ concat (map (\<lambda>(code, v). code @ format_2f v @ CRLF)
                   [(''0108'', bit_depth ?r), (''0110'', hole_depth ?r), (''0113'', rop ?r),
                    (''0114'', hook_load ?r), (''0116'', wob ?r), (''0117'', rpm ?r),
                    (''0118'', torque ?r), (''0119'', spp ?r), (''0120'', pump_spm ?r),
                    (''0121'', flow_in ?r), (''0124'', mw_in ?r), (''0125'', mw_out ?r),
                    (''0150'', ecd ?r), (''0126'', temp_in ?r), (''0127'', temp_out ?r),
                    (''0140'', gas ?r), (''0123'', pit_volume ?r), (''0105'', block_pos ?r)])
                @ ''!!'' @ CRLF)"
    by (rule conjunct1)
  then have "to_wits_frame ?r = Inr (concat (map (\<lambda>l. l @ CRLF)
       [''&&'', ''01081640.50'', ''01101650.00'', ''011315.25'', ''01140.00'', ''011622.00'',
        ''0117120.00'', ''01180.00'', ''0119290.00'', ''01200.00'', ''01210.00'',
        ''01240.00'', ''01250.00'', ''01500.00'', ''0126212.00'', ''01270.00'', ''01400.00'',
        ''01230.00'', ''0105-0.75'', ''!!'']))"
    by (simp add: f)
  with fin show ?thesis by (rule conjI)
qed

section \<open>Ingestion\<close>

subsection \<open>One row\<close>

lemma near_zero_iff:
  "near_zero x \<longleftrightarrow>
     (\<exists>s q. x = PFinite s q \<and> q < 7737125245533627 / 77371252455336267181195264)"
  unfolding near_zero_def tolerance_value
  by (cases x) (simp_all add: signed_def)

lemma near_zero_finite:
  "near_zero (PFinite s q) \<longleftrightarrow> q < 7737125245533627 / 77371252455336267181195264"
  unfolding near_zero_def tolerance_value by (simp add: signed_def)

lemma near_zero_infinite: "\<not> near_zero (PInf s)" "\<not> near_zero PNaN"
  unfolding near_zero_def tolerance_value by simp_all

lemma near_zero_zero: "near_zero (PFinite s 0)"
  by (simp add: near_zero_finite)

lemma safe_float_blank:
  assumes "is_blank flds"
  shows "safe_float flds i = PFinite False 0"
proof (cases "i < 0 \<or> int (length flds) \<le> i")
  case True
  then show ?thesis by (simp add: safe_float_def)
next
  case False
  then have "nat i < length flds" by linarith
  then have "flds ! nat i \<in> set flds" by (rule nth_mem)
  with assms have "strip (flds ! nat i) = []"
    by (auto simp: is_blank_def list_all_iff)
  then show ?thesis by (simp add: safe_float_def)
qed

text \<open>A blank row would pass the all-zero test: each of its raw values is \<open>0.0\<close>.\<close>

lemma blank_is_gap:
  assumes "is_blank flds"
  shows "is_gap col flds"
  by (simp add: is_gap_def safe_float_blank [OF assms] near_zero_zero)

lemma load_row_blank:
  "is_blank flds \<Longrightarrow> load_row col flds (recs, k) = Inr (recs, k)"
  by (simp add: load_row_def)

lemma load_row_gap:
  "\<not> is_blank flds \<Longrightarrow> is_gap col flds \<Longrightarrow> load_row col flds (recs, k) = Inr (recs, k + 1)"
  by (simp add: load_row_def)

lemma load_row_emit:
  assumes "\<not> is_gap col flds"
  shows "\<exists>r. make_record col flds = Inr r \<and> load_row col flds (recs, k) = Inr (recs @ [r], k)"
proof -
  obtain r where r: "make_record col flds = Inr r"
    using make_record_not_nan by blast
  have "\<not> is_blank flds" using assms blank_is_gap by blast
  with assms r show ?thesis by (simp add: load_row_def)
qed

subsection \<open>All rows\<close>

lemma load_rows_append:
  "load_rows col (rows @ [flds]) st =
     (case load_rows col rows st of Inl e \<Rightarrow> Inl e | Inr st' \<Rightarrow> load_row col flds st')"
proof (induction rows arbitrary: st)
  case Nil
  show ?case by (simp split: sum.split)
next
  case (Cons a rows)
  show ?case by (simp add: Cons.IH split: sum.split)
qed

text \<open>
  The loop, in closed form: the records are those of the rows that are not all-zero, in
  row order, and the counter has grown by the number of all-zero rows that are not blank.
\<close>

lemma load_rows_closed_form:
  "\<exists>recs'. load_rows col rows (recs, k) =
       Inr (recs @ recs',
            k + length (filter (\<lambda>flds. \<not> is_blank flds \<and> is_gap col flds) rows)) \<and>
     map Inr recs' = map (make_record col) (filter (\<lambda>flds. \<not> is_gap col flds) rows)"
proof (induction rows rule: rev_induct)
  case Nil
  show ?case by simp
next
  case (snoc flds rows)
  then obtain recs' where ih:
    "load_rows col rows (recs, k) =
       Inr (recs @ recs', k + length (filter (\<lambda>flds. \<not> is_blank flds \<and> is_gap col flds) rows))"
    "map Inr recs' = map (make_record col) (filter (\<lambda>flds. \<not> is_gap col flds) rows)"
    by blast
  let ?k = "k + length (filter (\<lambda>flds. \<not> is_blank flds \<and> is_gap col flds) rows)"
  consider (blank) "is_blank flds" | (gap) "\<not> is_blank flds" "is_gap col flds"
    | (emit) "\<not> is_gap col flds"
    by blast
  then show ?case
  proof cases
    case blank
    then have "load_row col flds (recs @ recs', ?k) = Inr (recs @ recs', ?k)"
      by (rule load_row_blank)
    with blank blank_is_gap [OF blank, of col] ih show ?thesis
      by (simp add: load_rows_append)
  next
    case gap
    then have "load_row col flds (recs @ recs', ?k) = Inr (recs @ recs', ?k + 1)"
      by (rule load_row_gap)
    with gap ih show ?thesis
      by (simp add: load_rows_append)
  next
    case emit
    then obtain r where r: "make_record col flds = Inr r"
      "load_row col flds (recs @ recs', ?k) = Inr ((recs @ recs') @ [r], ?k)"
      using load_row_emit by blast
    have "load_rows col (rows @ [flds]) (recs, k) = Inr (recs @ (recs' @ [r]),
        k + length (filter (\<lambda>flds. \<not> is_blank flds \<and> is_gap col flds) (rows @ [flds])))"
      using emit ih(1) r(2) by (simp add: load_rows_append)
    moreover have "map Inr (recs' @ [r])
        = map (make_record col) (filter (\<lambda>flds. \<not> is_gap col flds) (rows @ [flds]))"
      using emit ih(2) r(1) by simp
    ultimately show ?thesis by blast
  qed
qed

lemma count_rows:
  "length (filter (\<lambda>flds. \<not> is_gap col flds) rows)
     + length (filter (\<lambda>flds. \<not> is_blank flds \<and> is_gap col flds) rows)
     = length (filter (\<lambda>flds. \<not> is_blank flds) rows)"
proof (induction rows)
  case Nil
  show ?case by simp
next
  case (Cons flds rows)
  then show ?case using blank_is_gap [of flds col] by auto
qed

subsection \<open>Evaluating the loader on small files\<close>

lemma py_float_zero: "py_float ''0'' = Some (PFinite False 0)"
  by (simp add: float_eval round64_zero)

lemma py_float_five: "py_float ''5'' = Some (PFinite False 5)"
  by (simp add: float_eval round64_numeral)

lemma lower_strip_bit_depth: "lower (strip ''Bit Depth m'') = ''bit depth m''"
  by code_simp

lemma map_columns_bit_depth:
  "map_columns [''Bit Depth m''] = ColumnMap_default\<lparr>ColumnMap.bit_depth := 0\<rparr>"
  by (simp add: map_columns_def map_column_def lower_strip_bit_depth startswith_def)

lemma safe_float_absent: "safe_float flds (- 1) = PFinite False 0"
  by (simp add: safe_float_def)

lemma safe_float_zero_text: "safe_float [''0''] 0 = PFinite False 0"
  by (simp add: safe_float_def text_eval py_float_zero f_ne_self)

lemma safe_float_five_text: "safe_float [''5''] 0 = PFinite False 5"
  by (simp add: safe_float_def text_eval py_float_five f_ne_self)

lemma is_blank_examples:
  "is_blank []" "is_blank ['''', '' '']" "\<not> is_blank [''0'']" "\<not> is_blank [''5'']"
  by (simp_all add: is_blank_def text_eval)

lemma is_gap_examples:
  "is_gap (map_columns [''Bit Depth m'']) [''0'']"
  "\<not> is_gap (map_columns [''Bit Depth m'']) [''5'']"
  by (simp_all add: is_gap_def map_columns_bit_depth ColumnMap_default_def safe_float_absent
      safe_float_zero_text safe_float_five_text near_zero_finite)

lemma safe_float_inf_text: "safe_float [''inf''] 0 = PInf False"
  by (simp add: safe_float_def text_eval float_eval f_ne_def)

lemma make_record_inf_text:
  "map_sum id bit_depth (make_record (map_columns [''Bit Depth m'']) [''inf'']) = Inr (PInf False)"
  by (simp add: make_record_def Let_def map_columns_bit_depth ColumnMap_default_def
      safe_float_absent safe_float_inf_text celsius_to_fahrenheit_eq signed_def M_TO_FT_value)

text \<open>
  C2 as stated fails: the text \<open>inf\<close> is a float for Python, it is not NaN, and
  \<open>safe_float\<close> returns the infinity; the row is not all-zero, and the bit depth of its
  record is infinite.
\<close>

theorem safe_float_infinite_counterexample:
  "safe_float [''inf''] 0 = PInf False \<and> \<not> is_finite (safe_float [''inf''] 0) \<and>
   map_sum id (map bit_depth) (load_csv [[''Bit Depth m''], [''inf'']]) = Inr [PInf False]"
proof -
  let ?c = "map_columns [''Bit Depth m'']"
  have b: "\<not> is_blank [''inf'']"
    by (simp add: is_blank_def text_eval)
  have g: "\<not> is_gap ?c [''inf'']"
    by (simp add: is_gap_def map_columns_bit_depth ColumnMap_default_def safe_float_absent
        safe_float_inf_text near_zero_infinite)
  obtain r where r: "make_record ?c [''inf''] = Inr r"
    using make_record_not_nan by blast
  with make_record_inf_text have d: "bit_depth r = PInf False" by simp
  have "load_csv [[''Bit Depth m''], [''inf'']] = Inr [r]"
    using b g r by (simp add: load_csv_def load_row_def)
  with d show ?thesis by (simp add: safe_float_inf_text)
qed

text \<open>
  C3 (as amended). Every row read after the header falls in exactly one of three classes:
  it is blank (no field, or only white space in every field) and is dropped, neither
  emitted nor counted; or it is not blank and all-zero, and the counter of skipped rows
  grows by one; or it is emitted as one record. The loop never raises, and at its end
  the number of emitted records plus the skipped count equals the number of rows that are
  not blank.
\<close>

theorem load_rows_emitted_plus_skipped:
  "(\<exists>recs k. load_rows col rows ([], 0) = Inr (recs, k) \<and>
      length recs + k = length (filter (\<lambda>flds. \<not> is_blank flds) rows)) \<and>
   (is_blank flds \<longrightarrow> load_row col flds (rs, n) = Inr (rs, n)) \<and>
   (\<not> is_blank flds \<and> is_gap col flds \<longrightarrow> load_row col flds (rs, n) = Inr (rs, n + 1)) \<and>
   (\<not> is_blank flds \<and> \<not> is_gap col flds \<longrightarrow>
      (\<exists>r. load_row col flds (rs, n) = Inr (rs @ [r], n)))"
proof -
  obtain recs' where l: "load_rows col rows ([], 0) =
       Inr ([] @ recs', 0 + length (filter (\<lambda>flds. \<not> is_blank flds \<and> is_gap col flds) rows))"
    "map Inr recs' = map (make_record col) (filter (\<lambda>flds. \<not> is_gap col flds) rows)"
    using load_rows_closed_form by blast
  from l(2) have "length recs' = length (filter (\<lambda>flds. \<not> is_gap col flds) rows)"
    by (metis length_map)
  with l(1) count_rows [of col rows]
  have a: "\<exists>recs k. load_rows col rows ([], 0) = Inr (recs, k) \<and>
      length recs + k = length (filter (\<lambda>flds. \<not> is_blank flds) rows)"
    by simp
  have d: "\<not> is_blank flds \<and> \<not> is_gap col flds \<longrightarrow>
      (\<exists>r. load_row col flds (rs, n) = Inr (rs @ [r], n))"
    using load_row_emit by blast
  show ?thesis
    using a d load_row_blank load_row_gap by blast
qed

text \<open>
  The claim as stated counts every row read: a file whose only data row is blank gives
  no record and a skipped count of zero.
\<close>

theorem blank_row_not_counted_counterexample:
  "load_rows (map_columns [''Bit Depth m'']) [['''', '' '']] ([], 0) = Inr ([], 0) \<and>
   length ([] :: WitsRecord list) + 0 \<noteq> length [['''', '' '']]"
  by (simp add: load_row_blank is_blank_examples)

theorem load_rows_emitted_plus_skipped_witness:
  "(\<exists>recs k. load_rows (map_columns [''Bit Depth m'']) [[''5''], [], [''0'']] ([], 0)
        = Inr (recs, k) \<and> length recs + k = 2) \<and>
   length (filter (\<lambda>flds. \<not> is_blank flds) [[''5''], [], [''0'']]) = 2 \<and>
   is_blank [] \<and> load_row (map_columns [''Bit Depth m'']) [] ([], 0) = Inr ([], 0) \<and>
   \<not> is_blank [''0''] \<and> is_gap (map_columns [''Bit Depth m'']) [''0''] \<and>
   load_row (map_columns [''Bit Depth m'']) [''0''] ([], 0) = Inr ([], 1) \<and>
   \<not> is_blank [''5''] \<and> \<not> is_gap (map_columns [''Bit Depth m'']) [''5''] \<and>
   (\<exists>r. load_row (map_columns [''Bit Depth m'']) [''5''] ([], 0) = Inr ([r], 0))"
proof -
  let ?c = "map_columns [''Bit Depth m'']"
  have n: "length (filter (\<lambda>flds. \<not> is_blank flds) [[''5''], [], [''0'']]) = 2"
    by (simp add: is_blank_examples)
  have a: "\<exists>recs k. load_rows ?c [[''5''], [], [''0'']] ([], 0) = Inr (recs, k)
      \<and> length recs + k = 2"
    using load_rows_emitted_plus_skipped [of ?c "[[''5''], [], [''0'']]" "[]" "[]" 0]
    by (simp only: n)
  have b: "load_row ?c [] ([], 0) = Inr ([], 0)"
    using load_rows_emitted_plus_skipped [of ?c "[]" "[]" "[]" 0] is_blank_examples by blast
  have c: "load_row ?c [''0''] ([], 0) = Inr ([], 0 + 1)"
    using load_rows_emitted_plus_skipped [of ?c "[]" "[''0'']" "[]" 0] is_blank_examples
      is_gap_examples by blast
  have d: "\<exists>r. load_row ?c [''5''] ([], 0) = Inr ([] @ [r], 0)"
    using load_rows_emitted_plus_skipped [of ?c "[]" "[''5'']" "[]" 0] is_blank_examples
      is_gap_examples by blast
  show ?thesis
    using n a b c d is_blank_examples is_gap_examples by simp
qed

text \<open>
  C4 (as amended). A row is emitted if and only if it is not the case that the five raw
  values of weight on bit, rotary speed, rate of penetration, standpipe pressure and bit
  depth all have a magnitude strictly below the float \<open>1e-10\<close>; the other 13 values play
  no part. A row for which the five are below the tolerance is counted as skipped if and
  only if it is not blank: a blank row, whose five raw values are all \<open>0.0\<close>, is dropped
  before the test and is not counted.
\<close>

theorem load_row_skips_all_zero:
  "(is_gap col flds \<longleftrightarrow>
      near_zero (safe_float flds (ColumnMap.wob col)) \<and>
      near_zero (safe_float flds (ColumnMap.rpm col)) \<and>
      near_zero (safe_float flds (ColumnMap.rop col)) \<and>
      near_zero (safe_float flds (ColumnMap.spp col)) \<and>
      near_zero (safe_float flds (ColumnMap.bit_depth col))) \<and>
   (near_zero (PFinite s q) \<longleftrightarrow> q < 7737125245533627 / 77371252455336267181195264) \<and>
   \<not> near_zero (PInf s) \<and> \<not> near_zero PNaN \<and>
   ((\<exists>r. load_row col flds (recs, k) = Inr (recs @ [r], k)) \<longleftrightarrow> \<not> is_gap col flds) \<and>
   (load_row col flds (recs, k) = Inr (recs, k + 1) \<longleftrightarrow> is_gap col flds \<and> \<not> is_blank flds) \<and>
   (load_row col flds (recs, k) = Inr (recs, k) \<longleftrightarrow> is_blank flds) \<and>
   (is_blank flds \<longrightarrow> is_gap col flds)"
proof -
  have a: "is_gap col flds \<longleftrightarrow>
      near_zero (safe_float flds (ColumnMap.wob col)) \<and>
      near_zero (safe_float flds (ColumnMap.rpm col)) \<and>
      near_zero (safe_float flds (ColumnMap.rop col)) \<and>
      near_zero (safe_float flds (ColumnMap.spp col)) \<and>
      near_zero (safe_float flds (ColumnMap.bit_depth col))"
    by (simp add: is_gap_def)
  consider (blank) "is_blank flds" "is_gap col flds" | (gap) "\<not> is_blank flds" "is_gap col flds"
    | (emit) "\<not> is_blank flds" "\<not> is_gap col flds"
    using blank_is_gap by blast
  then have b: "((\<exists>r. load_row col flds (recs, k) = Inr (recs @ [r], k)) \<longleftrightarrow> \<not> is_gap col flds) \<and>
   (load_row col flds (recs, k) = Inr (recs, k + 1) \<longleftrightarrow> is_gap col flds \<and> \<not> is_blank flds) \<and>
   (load_row col flds (recs, k) = Inr (recs, k) \<longleftrightarrow> is_blank flds)"
  proof cases
    case blank
    then show ?thesis by (simp add: load_row_blank)
  next
    case gap
    then show ?thesis by (simp add: load_row_gap)
  next
    case emit
    from load_row_emit [OF emit(2)] obtain r where
      "load_row col flds (recs, k) = Inr (recs @ [r], k)" by blast
    with emit show ?thesis by simp
  qed
  show ?thesis
    using a b near_zero_finite [of s q] near_zero_infinite(1) [of s] near_zero_infinite(2)
      blank_is_gap [of flds col]
    by blast
qed

text \<open>
  The claim as stated fails on a blank row: its five raw values are \<open>0.0\<close>, so all are
  within the tolerance, and the row is not counted as skipped.
\<close>

theorem blank_row_all_zero_counterexample:
  "is_gap (map_columns [''Weight on Bit kkgf'', ''Bit Depth m'']) ['' '', ''''] \<and>
   load_row (map_columns [''Weight on Bit kkgf'', ''Bit Depth m'']) ['' '', ''''] ([], 0)
     = Inr ([], 0)"
proof -
  have b: "is_blank ['' '', '''']"
    by (simp add: is_blank_def text_eval)
  show ?thesis
    using blank_is_gap [OF b] load_row_blank [OF b] by simp
qed

theorem load_row_skips_all_zero_witness:
  "is_gap (map_columns [''Bit Depth m'']) [''0''] \<and> \<not> is_blank [''0''] \<and>
   load_row (map_columns [''Bit Depth m'']) [''0''] ([], 0) = Inr ([], 1) \<and>
   \<not> is_gap (map_columns [''Bit Depth m'']) [''5''] \<and>
   (\<exists>r. load_row (map_columns [''Bit Depth m'']) [''5''] ([], 0) = Inr ([r], 0)) \<and>
   is_blank [] \<and> is_gap (map_columns [''Bit Depth m'']) [] \<and>
   load_row (map_columns [''Bit Depth m'']) [] ([], 0) = Inr ([], 0) \<and>
   near_zero (PFinite True 0) \<and> \<not> near_zero (PFinite False 5)"
proof -
  let ?c = "map_columns [''Bit Depth m'']"
  have a: "load_row ?c [''0''] ([], 0) = Inr ([], 0 + 1)"
    using load_row_skips_all_zero [of ?c "[''0'']" True 0 "[]" 0] is_gap_examples
      is_blank_examples by blast
  have b: "\<exists>r. load_row ?c [''5''] ([], 0) = Inr ([] @ [r], 0)"
    using load_row_skips_all_zero [of ?c "[''5'']" True 0 "[]" 0] is_gap_examples
    by blast
  have c: "is_gap ?c []" "load_row ?c [] ([], 0) = Inr ([], 0)"
    using load_row_skips_all_zero [of ?c "[]" True 0 "[]" 0] is_blank_examples
    by blast+
  have "(0::rat) < 7737125245533627 / 77371252455336267181195264" by simp
  then have d: "near_zero (PFinite True 0)"
    using load_row_skips_all_zero [of ?c "[]" True 0 "[]" 0] by blast
  have "\<not> (5::rat) < 7737125245533627 / 77371252455336267181195264" by simp
  then have e: "\<not> near_zero (PFinite False 5)"
    using load_row_skips_all_zero [of ?c "[]" False 5 "[]" 0] by blast
  show ?thesis
    using a b c d e is_gap_examples is_blank_examples by simp
qed

subsection \<open>What the loader returns\<close>

text \<open>
  C9 (as amended). One ingestion pass returns to its caller the ordered sequence of
  records only: the records of the rows that are not all-zero, in row order. The count
  of skipped rows is kept in a local variable of the loop and is not part of the value
  returned. On a file without a header row the pass raises \<open>StopIteration\<close>; otherwise
  it returns.
\<close>

theorem load_csv_returns_records:
  "load_csv [] = Inl StopIteration \<and>
   (\<exists>recs k. load_rows (map_columns header) body ([], 0) = Inr (recs, k) \<and>
      load_csv (header # body) = Inr recs \<and>
      map Inr recs = map (make_record (map_columns header))
                       (filter (\<lambda>flds. \<not> is_gap (map_columns header) flds) body) \<and>
      k = length (filter (\<lambda>flds. \<not> is_blank flds \<and> is_gap (map_columns header) flds) body))"
proof -
  obtain recs' where l: "load_rows (map_columns header) body ([], 0) =
       Inr ([] @ recs', 0 + length (filter (\<lambda>flds. \<not> is_blank flds
          \<and> is_gap (map_columns header) flds) body))"
    "map Inr recs' = map (make_record (map_columns header))
       (filter (\<lambda>flds. \<not> is_gap (map_columns header) flds) body)"
    using load_rows_closed_form by blast
  from l(1) have "load_csv (header # body) = Inr recs'"
    by (simp add: load_csv_def)
  with l show ?thesis
    by (simp add: load_csv_def)
qed

text \<open>
  The claim as stated fails: two files with different numbers of skipped rows give the
  same returned value, so the count cannot be read from what the caller receives.
\<close>

theorem skipped_count_not_returned_counterexample:
  "load_csv [[''Bit Depth m''], [''0'']] = Inr [] \<and>
   load_csv [[''Bit Depth m'']] = Inr [] \<and>
   load_rows (map_columns [''Bit Depth m'']) [[''0'']] ([], 0) = Inr ([], 1) \<and>
   load_rows (map_columns [''Bit Depth m'']) [] ([], 0) = Inr ([], 0)"
  by (simp add: load_csv_def load_row_gap is_blank_examples is_gap_examples)

theorem load_csv_returns_records_witness:
  "load_csv [] = Inl StopIteration \<and>
   (\<exists>recs. load_csv [[''Bit Depth m''], [''5''], [''0''], [], [''5'']] = Inr recs \<and>
      map Inr recs = [make_record (map_columns [''Bit Depth m'']) [''5''],
                       make_record (map_columns [''Bit Depth m'']) [''5'']] \<and>
      load_rows (map_columns [''Bit Depth m'']) [[''5''], [''0''], [], [''5'']] ([], 0)
        = Inr (recs, 1))"
proof -
  let ?c = "map_columns [''Bit Depth m'']"
  have g: "is_gap ?c []"
    using blank_is_gap is_blank_examples(1) by blast
  from load_csv_returns_records [of "[''Bit Depth m'']" "[[''5''], [''0''], [], [''5'']]"]
  obtain recs k where r: "load_rows ?c [[''5''], [''0''], [], [''5'']] ([], 0) = Inr (recs, k)"
    "load_csv [[''Bit Depth m''], [''5''], [''0''], [], [''5'']] = Inr recs"
    "map Inr recs = map (make_record ?c)
       (filter (\<lambda>flds. \<not> is_gap ?c flds) [[''5''], [''0''], [], [''5'']])"
    "k = length (filter (\<lambda>flds. \<not> is_blank flds \<and> is_gap ?c flds)
       [[''5''], [''0''], [], [''5'']])"
    by blast
  have k: "k = 1"
    using r(4) by (simp add: is_gap_examples is_blank_examples g)
  have m: "map Inr recs = [make_record ?c [''5''], make_record ?c [''5'']]"
    using r(3) by (simp add: is_gap_examples g)
  show ?thesis
    using load_csv_returns_records [of "[''Bit Depth m'']" "[]"] r(1,2) k m by simp
qed

section \<open>The broadcast step\<close>

lemma close_dead_closed_form:
  "close_dead ds (cl, nw) =
     (filter (\<lambda>c. c \<notin> set ds) cl, nw\<lparr>closed := closed nw @ ds\<rparr>)"
proof (induction ds arbitrary: cl nw)
  case Nil
  show ?case by simp
next
  case (Cons d ds)
  have "filter (\<lambda>c. c \<notin> set ds) (removeAll d cl) = filter (\<lambda>c. c \<notin> set (d # ds)) cl"
    by (induction cl) auto
  then show ?case by (simp add: Cons.IH)
qed

text \<open>
  The first loop when no drain is disturbed: every writer is written to, the loop ends
  without an exception, and \<open>dead\<close> receives the writers whose write failed.
\<close>

lemma broadcast_writes_undisturbed:
  assumes "list_all (undisturbed outcome) todo" and "set todo \<subseteq> set (clients s)"
    and "length (clients s) = n"
  shows "broadcast_writes outcome data n todo (dead, s, nw) =
           (None, dead @ filter (failed outcome) todo, s,
            nw\<lparr>writes := writes nw @ map (\<lambda>c. (c, data)) todo\<rparr>)"
  using assms
proof (induction todo arbitrary: dead nw)
  case Nil
  then show ?case by simp
next
  case (Cons w rest)
  have keep: "filter (\<lambda>w. w \<in> set (clients s)) rest = rest"
    using Cons.prems(2) by (auto simp: filter_id_conv)
  have ih: "broadcast_writes outcome data n rest (dead', s, nw') =
           (None, dead' @ filter (failed outcome) rest, s,
            nw'\<lparr>writes := writes nw' @ map (\<lambda>c. (c, data)) rest\<rparr>)" for dead' nw'
    using Cons.IH [of dead' nw'] Cons.prems by simp
  show ?case
  proof (cases "outcome w")
    case None
    then have "\<not> failed outcome w"
      by (simp add: failed_def)
    with None show ?thesis
      using Cons.prems(3) by (simp add: ih)
  next
    case (Some d)
    show ?thesis
    proof (cases d)
      case (Raises e)
      with Some have "failed outcome w"
        by (simp add: failed_def)
      with Some Raises show ?thesis
        using Cons.prems(3) by (simp add: ih)
    next
      case (Suspends changes result)
      with Some Cons.prems(1) have ch: "changes = []"
        by (simp add: undisturbed_def)
      from Some Suspends have "failed outcome w \<longleftrightarrow> result \<noteq> None"
        by (simp add: failed_def)
      with Some Suspends ch show ?thesis
        using Cons.prems(3) by (cases result) (simp_all add: ih keep)
    qed
  qed
qed

lemma broadcast_undisturbed:
  assumes "list_all (undisturbed outcome) (clients s)"
  shows "broadcast outcome data (s, nw) =
     (None,
      s\<lparr>clients := filter (\<lambda>c. \<not> failed outcome c) (clients s)\<rparr>,
      nw\<lparr>writes := writes nw @ map (\<lambda>c. (c, data)) (clients s),
         closed := closed nw @ filter (failed outcome) (clients s)\<rparr>)"
proof -
  have "filter (\<lambda>c. c \<notin> set (filter (failed outcome) (clients s))) (clients s)
      = filter (\<lambda>c. \<not> failed outcome c) (clients s)"
    by (rule filter_cong) auto
  then show ?thesis
    using assms
    by (simp add: broadcast_def broadcast_writes_undisturbed close_dead_closed_form)
qed

text \<open>
  C8. A registry of three clients of which the connections of clients 1 and 2 are reset.
  The write to client 1 fails and its drain yields to the event loop and raises; the
  write to client 2 fails and its drain yields as well, and meanwhile \<open>handle_client\<close> of
  client 1, woken by the lost connection, discards writer 1 from the set and closes it;
  the drain of client 2 raises and is caught. The loop then asks the set for its next
  writer, the set has two elements instead of three, and \<open>broadcast\<close> ends with
  \<open>RuntimeError\<close>: nothing is written to client 3, and the failed client 2 is still in
  the registry, not closed.
\<close>

theorem broadcast_aborts_when_registry_changes:
  "broadcast (\<lambda>c. if c = 1 then Some (Suspends [] (Some ConnectionResetError))
                   else if c = 2 then Some (Suspends [Discards 1] (Some ConnectionResetError))
                   else None) ''&&''
     (\<lparr>records = [], interval = PFinite False 1, port = 10001, loop_replay = False,
       clients = [1, 2, 3], running = True, total_sent = 5\<rparr>,
      \<lparr>writes = [], closed = []\<rparr>) =
     (Some RuntimeError,
      \<lparr>records = [], interval = PFinite False 1, port = 10001, loop_replay = False,
       clients = [2, 3], running = True, total_sent = 5\<rparr>,
      \<lparr>writes = [(1, ''&&''), (2, ''&&'')], closed = [1]\<rparr>)"
  by (simp add: broadcast_def)

text \<open>
  Broadcast without disturbance. In a broadcast step in which no other task touches the
  server object while a drain is suspended, the step ends without an exception; the data
  is written once to every client of the registry, in the order of iteration, whatever
  fails before it; exactly the clients whose write failed are removed from the registry
  and closed, the others remain; and nothing else of the server object changes.
\<close>

theorem broadcast_undisturbed_removes_failed_clients:
  assumes "list_all (undisturbed outcome) (clients s)"
  shows "broadcast outcome data (s, nw) =
     (None,
      s\<lparr>clients := filter (\<lambda>c. \<not> failed outcome c) (clients s)\<rparr>,
      nw\<lparr>writes := writes nw @ map (\<lambda>c. (c, data)) (clients s),
         closed := closed nw @ filter (failed outcome) (clients s)\<rparr>) \<and>
   set (clients (fst (snd (broadcast outcome data (s, nw)))))
     = set (clients s) - {c. failed outcome c} \<and>
   records (fst (snd (broadcast outcome data (s, nw)))) = records s \<and>
   running (fst (snd (broadcast outcome data (s, nw)))) = running s \<and>
   total_sent (fst (snd (broadcast outcome data (s, nw)))) = total_sent s \<and>
   loop_replay (fst (snd (broadcast outcome data (s, nw)))) = loop_replay s \<and>
   interval (fst (snd (broadcast outcome data (s, nw)))) = interval s \<and>
   port (fst (snd (broadcast outcome data (s, nw)))) = port s"
  using assms by (auto simp: broadcast_undisturbed)

theorem broadcast_undisturbed_removes_failed_clients_witness:
  "broadcast (\<lambda>c. if c = 2 then Some (Suspends [] (Some ConnectionResetError)) else None) ''&&''
     (\<lparr>records = [], interval = PFinite False 1, port = 10001, loop_replay = False,
       clients = [1, 2, 3], running = True, total_sent = 5\<rparr>,
      \<lparr>writes = [], closed = []\<rparr>) =
     (None,
      \<lparr>records = [], interval = PFinite False 1, port = 10001, loop_replay = False,
       clients = [1, 3], running = True, total_sent = 5\<rparr>,
      \<lparr>writes = [(1, ''&&''), (2, ''&&''), (3, ''&&'')], closed = [2]\<rparr>)"
  using broadcast_undisturbed_removes_failed_clients
    [of "\<lambda>c. if c = 2 then Some (Suspends [] (Some ConnectionResetError)) else None"
      "\<lparr>records = [], interval = PFinite False 1, port = 10001, loop_replay = False,
        clients = [1, 2, 3], running = True, total_sent = 5\<rparr>"
      "''&&''" "\<lparr>writes = [], closed = []\<rparr>"]
  by (simp add: undisturbed_def failed_def)

section \<open>The feed loop\<close>

lemma run_passes_records:
  assumes "records (srv s) \<noteq> []"
  shows "run_passes outcome s =
           Some (if \<not> running (srv s) then s\<lparr>loc := Returned\<rparr>
                 else iteration outcome 0 (s\<lparr>pass_num := pass_num s + 1\<rparr>))"
  using assms by (subst run_passes.simps) (simp add: Let_def)

text \<open>What sending record \<open>i\<close> does to the system when no drain is disturbed.\<close>

lemma send_record_undisturbed:
  assumes "list_all (undisturbed outcome) (clients (srv s))"
  shows "send_record outcome i s =
     s\<lparr>srv := (srv s)\<lparr>clients := filter (\<lambda>c. \<not> failed outcome c) (clients (srv s)),
                       total_sent := total_sent (srv s) + 1\<rparr>,
       netw := (netw s)
         \<lparr>writes := writes (netw s)
            @ map (\<lambda>c. (c, concat (map (\<lambda>l. l @ CRLF) (frame_lines (records (srv s) ! i)))))
                (clients (srv s)),
          closed := closed (netw s) @ filter (failed outcome) (clients (srv s))\<rparr>,
       loc := Pace i\<rparr>"
  using assms by (simp add: send_record_def to_wits_frame_total broadcast_undisturbed)

text \<open>
  C10. Two records to replay and two clients, 7 and 8, whose connections are both reset:
  every write of the broadcast of record 0 fails. The write to client 7 fails and its
  drain yields and raises; during the drain of client 8 \<open>handle_client\<close> of client 7
  discards writer 7; when the loop over the set asks for the next writer \<open>broadcast\<close> ends
  with \<open>RuntimeError\<close>, which ends the feed loop before \<open>self.total_sent += 1\<close>. The sent
  counter is still 0, the failed client 8 is still registered, and the feed loop is over:
  when a client 9 connects afterwards nothing is sent to it, neither record 0 nor
  record 1.
\<close>

theorem feed_loop_dies_when_every_write_fails:
  "map_option (\<lambda>s. (clients (srv s), total_sent (srv s), loc s, map fst (writes (netw s)),
                     closed (netw s)))
     (run [Connect 8, Connect 7,
           Resume (\<lambda>c. if c = 7 then Some (Suspends [] (Some ConnectionResetError))
                        else Some (Suspends [Discards 7] (Some ConnectionResetError)))]
        (initial [WitsRecord_default, WitsRecord_default] (PFinite False 1) 10001 False))
     = Some ([8], 0, Raised RuntimeError, [7, 8], [7]) \<and>
   map_option (\<lambda>s. (clients (srv s), total_sent (srv s), loc s, map fst (writes (netw s)),
                     closed (netw s)))
     (run [Connect 8, Connect 7,
           Resume (\<lambda>c. if c = 7 then Some (Suspends [] (Some ConnectionResetError))
                        else Some (Suspends [Discards 7] (Some ConnectionResetError))),
           Disconnect 8, Connect 9, Resume (\<lambda>c. None), Resume (\<lambda>c. None)]
        (initial [WitsRecord_default, WitsRecord_default] (PFinite False 1) 10001 False))
     = Some ([9], 0, Raised RuntimeError, [7, 8], [7, 8])"
  by (simp add: step_def resume_def first_wait_def run_passes_records iteration_def
        send_record_def to_wits_frame_total broadcast_def initial_def)

text \<open>
  The iteration without disturbance. In an iteration of the feed loop that reaches the
  pre-send check with a non-empty registry and in whose broadcast no other task touches
  the server object while a drain is suspended, the record is broadcast, the sent counter
  grows by exactly one and the loop goes to its pacing sleep, whatever the outcome of the
  writes: also when every write fails and the registry is left empty. From the pacing
  sleep the loop goes on to the next record (or to the end of the pass), so the record is
  not sent again. Whatever the outcome of its writes, an iteration waits for a client,
  to send its record once a client is back, exactly when it finds the server running and
  the registry empty before the send.
\<close>

theorem iteration_undisturbed_counts_record_as_sent:
  assumes "running (srv s)" and "clients (srv s) \<noteq> []" and "i < length (records (srv s))"
    and "list_all (undisturbed outcome) (clients (srv s))"
  shows "iteration outcome i s =
           s\<lparr>srv := (srv s)\<lparr>clients := filter (\<lambda>c. \<not> failed outcome c) (clients (srv s)),
                             total_sent := total_sent (srv s) + 1\<rparr>,
             netw := (netw s)
               \<lparr>writes := writes (netw s)
                  @ map (\<lambda>c. (c, concat (map (\<lambda>l. l @ CRLF) (frame_lines (records (srv s) ! i)))))
                      (clients (srv s)),
                closed := closed (netw s) @ filter (failed outcome) (clients (srv s))\<rparr>,
             loc := Pace i\<rparr> \<and>
         total_sent (srv (iteration outcome i s)) = total_sent (srv s) + 1 \<and>
         loc (iteration outcome i s) = Pace i \<and>
         (list_all (failed outcome) (clients (srv s)) \<longrightarrow>
            clients (srv (iteration outcome i s)) = []) \<and>
         resume outcome' (iteration outcome i s) =
           (if i + 1 < length (records (srv s))
            then Some (iteration outcome' (i + 1) (iteration outcome i s))
            else if \<not> loop_replay (srv s) then Some (idle_after_replay (iteration outcome i s))
            else run_passes outcome' (iteration outcome i s)) \<and>
         (\<forall>t j. loc (iteration outcome' j t) = WaitReconnect j
                  \<longleftrightarrow> running (srv t) \<and> clients (srv t) = [])"
proof -
  have it: "iteration outcome i s = send_record outcome i s"
    using assms by (simp add: iteration_def)
  have w: "\<And>t j. loc (iteration outcome' j t) = WaitReconnect j
                  \<longleftrightarrow> running (srv t) \<and> clients (srv t) = []"
    by (auto simp: iteration_def wait_reconnect_def send_record_def to_wits_frame_total
          split: prod.splits option.splits if_splits)
  have e: "list_all (failed outcome) (clients (srv s)) \<longrightarrow>
      filter (\<lambda>c. \<not> failed outcome c) (clients (srv s)) = []"
    by (auto simp: list_all_iff filter_empty_conv)
  show ?thesis
    unfolding it using e w assms(4)
    by (simp add: send_record_undisturbed resume_def after_pace_def)
qed

theorem iteration_undisturbed_counts_record_as_sent_witness:
  "running (srv ((initial [WitsRecord_default, WitsRecord_default] (PFinite False 1) 10001 False)
      \<lparr>srv := (srv (initial [WitsRecord_default, WitsRecord_default] (PFinite False 1) 10001 False))
         \<lparr>clients := [7]\<rparr>\<rparr>)) \<and>
   total_sent (srv (iteration (\<lambda>c. Some (Suspends [] (Some ConnectionResetError))) 0
     ((initial [WitsRecord_default, WitsRecord_default] (PFinite False 1) 10001 False)
      \<lparr>srv := (srv (initial [WitsRecord_default, WitsRecord_default] (PFinite False 1) 10001 False))
         \<lparr>clients := [7]\<rparr>\<rparr>))) = 1 \<and>
   loc (iteration (\<lambda>c. Some (Suspends [] (Some ConnectionResetError))) 0
     ((initial [WitsRecord_default, WitsRecord_default] (PFinite False 1) 10001 False)
      \<lparr>srv := (srv (initial [WitsRecord_default, WitsRecord_default] (PFinite False 1) 10001 False))
         \<lparr>clients := [7]\<rparr>\<rparr>)) = Pace 0 \<and>
   clients (srv (iteration (\<lambda>c. Some (Suspends [] (Some ConnectionResetError))) 0
     ((initial [WitsRecord_default, WitsRecord_default] (PFinite False 1) 10001 False)
      \<lparr>srv := (srv (initial [WitsRecord_default, WitsRecord_default] (PFinite False 1) 10001 False))
         \<lparr>clients := [7]\<rparr>\<rparr>))) = [] \<and>
   map fst (writes (netw (iteration (\<lambda>c. Some (Suspends [] (Some ConnectionResetError))) 0
     ((initial [WitsRecord_default, WitsRecord_default] (PFinite False 1) 10001 False)
      \<lparr>srv := (srv (initial [WitsRecord_default, WitsRecord_default] (PFinite False 1) 10001 False))
         \<lparr>clients := [7]\<rparr>\<rparr>)))) = [7]"
proof -
  let ?s = "(initial [WitsRecord_default, WitsRecord_default] (PFinite False 1) 10001 False)
      \<lparr>srv := (srv (initial [WitsRecord_default, WitsRecord_default] (PFinite False 1) 10001 False))
         \<lparr>clients := [7]\<rparr>\<rparr>"
  let ?o = "\<lambda>c::nat. Some (Suspends [] (Some ConnectionResetError))"
  have h: "running (srv ?s)" "clients (srv ?s) \<noteq> []" "0 < length (records (srv ?s))"
    "list_all (undisturbed ?o) (clients (srv ?s))"
    by (simp_all add: initial_def undisturbed_def)
  note t = iteration_undisturbed_counts_record_as_sent [OF h, of "\<lambda>c. None"]
  from t have e: "iteration ?o 0 ?s =
           ?s\<lparr>srv := (srv ?s)\<lparr>clients := filter (\<lambda>c. \<not> failed ?o c) (clients (srv ?s)),
                             total_sent := total_sent (srv ?s) + 1\<rparr>,
             netw := (netw ?s)
               \<lparr>writes := writes (netw ?s)
                  @ map (\<lambda>c. (c, concat (map (\<lambda>l. l @ CRLF) (frame_lines (records (srv ?s) ! 0)))))
                      (clients (srv ?s)),
                closed := closed (netw ?s) @ filter (failed ?o) (clients (srv ?s))\<rparr>,
             loc := Pace 0\<rparr>"
    by (rule conjunct1)
  show ?thesis
    unfolding e by (simp add: initial_def failed_def)
qed

section \<open>Waiting for a client\<close>

lemmas feed_eval =
  step_def resume_def first_wait_def run_passes_records iteration_def wait_reconnect_def
  send_record_undisturbed undisturbed_def failed_def after_pace_def idle_after_replay_def
  initial_def

text \<open>
  While the registry is empty and the server is running, resuming the feed loop in one of
  its two waits changes nothing at all: neither the place in the sequence nor the counter.
\<close>

lemma waiting_changes_nothing:
  assumes "clients (srv s) = []" and "running (srv s)"
    and "loc s = WaitReconnect i \<or> loc s = WaitFirstClient"
  shows "resume outcome s = Some s"
  using assms by (auto simp: resume_def wait_reconnect_def first_wait_def)

text \<open>The wait inside the iteration for record \<open>i\<close> begins when the registry is found empty.\<close>

lemma registry_found_empty:
  assumes "loc s = Pace i" and "clients (srv s) = []" and "running (srv s)"
    and "i + 1 < length (records (srv s))"
  shows "resume outcome s = Some (s\<lparr>loc := WaitReconnect (i + 1)\<rparr>)"
  using assms by (simp add: resume_def after_pace_def iteration_def wait_reconnect_def)

text \<open>Once a client is back, the record sent is the one the loop was waiting with.\<close>

lemma reconnect_sends_pending_record:
  assumes "loc s = WaitReconnect i" and "clients (srv s) \<noteq> []"
  shows "resume outcome s = Some (send_record outcome i s)"
  using assms by (simp add: resume_def wait_reconnect_def)

text \<open>
  The wait also ends when \<open>running\<close> is cleared, and the rest of the iteration follows:
  the record is broadcast to the empty registry and counted.
\<close>

lemma shutdown_ends_wait_with_a_send:
  assumes "loc s = WaitReconnect i" and "\<not> running (srv s)"
  shows "resume outcome s = Some (send_record outcome i s)"
  using assms by (simp add: resume_def wait_reconnect_def)

text \<open>
  What the other tasks do during a suspension writes nothing to a client, and a broadcast
  to a registry of one client writes the data to it and to no other, however it ends.
\<close>

lemma interfere_keeps_writes:
  "writes (snd (fold interfere changes (s, nw))) = writes nw"
proof (induction changes arbitrary: s nw)
  case Nil
  show ?case by simp
next
  case (Cons ch changes)
  show ?case by (cases ch) (simp_all add: Cons.IH)
qed

lemma broadcast_single_writes:
  assumes "clients s = [c]"
  shows "writes (snd (snd (broadcast outcome data (s, nw)))) = writes nw @ [(c, data)]"
proof (cases "outcome c")
  case None
  with assms show ?thesis by (simp add: broadcast_def)
next
  case (Some d)
  show ?thesis
  proof (cases d)
    case (Raises e)
    with Some assms show ?thesis by (simp add: broadcast_def)
  next
    case (Suspends changes result)
    obtain s2 nw2 where f: "fold interfere changes (s, nw\<lparr>writes := writes nw @ [(c, data)]\<rparr>) = (s2, nw2)"
      by (cases "fold interfere changes (s, nw\<lparr>writes := writes nw @ [(c, data)]\<rparr>)")
    have w: "writes nw2 = writes nw @ [(c, data)]"
      using interfere_keeps_writes [of changes s "nw\<lparr>writes := writes nw @ [(c, data)]\<rparr>"] f
      by simp
    from Some Suspends assms f w show ?thesis
      by (cases result) (simp_all add: broadcast_def close_dead_closed_form Let_def)
  qed
qed

lemma send_record_single_writes:
  assumes "clients (srv s) = [c]"
  shows "writes (netw (send_record outcome i s)) =
           writes (netw s) @ [(c, concat (map (\<lambda>l. l @ CRLF) (frame_lines (records (srv s) ! i))))]"
proof -
  let ?frame = "concat (map (\<lambda>l. l @ CRLF) (frame_lines (records (srv s) ! i)))"
  obtain e sv nw where b: "broadcast outcome ?frame (srv s, netw s) = (e, sv, nw)"
    by (cases "broadcast outcome ?frame (srv s, netw s)")
  have "writes nw = writes (netw s) @ [(c, ?frame)]"
    using broadcast_single_writes [OF assms, of outcome ?frame "netw s"] b by simp
  with b show ?thesis
    by (cases e) (simp_all add: send_record_def to_wits_frame_total)
qed

text \<open>
  The idle period while the server is running. From the pacing sleep after record \<open>i\<close>
  with an empty registry the loop goes to the wait for record \<open>i + 1\<close>; any number of
  polls there leave the system as it is; and when a client has connected the next
  resumption writes the frame of record \<open>i + 1\<close>, and no other, to it, however that
  write ends; when no other task touches the server object while its drain is suspended
  the record is counted and the loop goes to the pacing sleep of record \<open>i + 1\<close>.
\<close>

theorem idle_period_keeps_pending_record:
  assumes "loc s = Pace i" and "clients (srv s) = []" and "running (srv s)"
    and "i + 1 < length (records (srv s))"
  shows "run (replicate (Suc n) (Resume outcome)) s = Some (s\<lparr>loc := WaitReconnect (i + 1)\<rparr>) \<and>
         map_option (\<lambda>t. writes (netw t))
           (run (replicate (Suc n) (Resume outcome) @ [Connect c, Resume outcome']) s) =
           Some (writes (netw s)
                   @ [(c, concat (map (\<lambda>l. l @ CRLF)
                                    (frame_lines (records (srv s) ! (i + 1)))))]) \<and>
         (undisturbed outcome' c \<longrightarrow>
          run (replicate (Suc n) (Resume outcome) @ [Connect c, Resume outcome']) s =
            Some (s\<lparr>srv := (srv s)\<lparr>clients := filter (\<lambda>c. \<not> failed outcome' c) [c],
                                    total_sent := total_sent (srv s) + 1\<rparr>,
                    netw := (netw s)
                      \<lparr>writes := writes (netw s)
                         @ [(c, concat (map (\<lambda>l. l @ CRLF)
                                          (frame_lines (records (srv s) ! (i + 1)))))],
                       closed := closed (netw s) @ filter (failed outcome') [c]\<rparr>,
                    loc := Pace (i + 1)\<rparr>))"
proof -
  let ?w = "s\<lparr>loc := WaitReconnect (i + 1)\<rparr>"
  let ?c = "?w\<lparr>srv := (srv ?w)\<lparr>clients := [c]\<rparr>\<rparr>"
  have first: "step (Resume outcome) s = Some ?w"
    using registry_found_empty [OF assms] by (simp add: step_def)
  have stay: "step (Resume outcome) ?w = Some ?w"
    using waiting_changes_nothing [of ?w "i + 1" outcome] assms by (simp add: step_def)
  have polls: "run (replicate k (Resume outcome)) ?w = Some ?w" for k
  proof (induction k)
    case 0
    show ?case by simp
  next
    case (Suc k)
    with stay show ?case by simp
  qed
  have a: "run (replicate (Suc n) (Resume outcome)) s = Some ?w"
    using first polls [of n] by simp
  have app: "run (xs @ ys) t = (case run xs t of None \<Rightarrow> None | Some t' \<Rightarrow> run ys t')"
    for xs ys t
    by (induction xs arbitrary: t) (simp_all split: option.split)
  have sent: "run [Connect c, Resume outcome'] ?w = Some (send_record outcome' (i + 1) ?c)"
    using assms(2) by (simp add: step_def resume_def wait_reconnect_def)
  have whole: "run (replicate (Suc n) (Resume outcome) @ [Connect c, Resume outcome']) s =
      Some (send_record outcome' (i + 1) ?c)"
    using a sent by (simp only: app) simp
  have b: "map_option (\<lambda>t. writes (netw t))
           (run (replicate (Suc n) (Resume outcome) @ [Connect c, Resume outcome']) s) =
           Some (writes (netw s)
                   @ [(c, concat (map (\<lambda>l. l @ CRLF)
                                    (frame_lines (records (srv s) ! (i + 1)))))])"
    using send_record_single_writes [of ?c c outcome' "i + 1"] by (simp only: whole) simp
  have d: "run (replicate (Suc n) (Resume outcome) @ [Connect c, Resume outcome']) s =
            Some (s\<lparr>srv := (srv s)\<lparr>clients := filter (\<lambda>c. \<not> failed outcome' c) [c],
                                    total_sent := total_sent (srv s) + 1\<rparr>,
                    netw := (netw s)
                      \<lparr>writes := writes (netw s)
                         @ [(c, concat (map (\<lambda>l. l @ CRLF)
                                          (frame_lines (records (srv s) ! (i + 1)))))],
                       closed := closed (netw s) @ filter (failed outcome') [c]\<rparr>,
                    loc := Pace (i + 1)\<rparr>)"
    if "undisturbed outcome' c"
    using that by (simp only: whole) (simp add: send_record_undisturbed)
  from a b d show ?thesis
    by blast
qed

theorem idle_period_keeps_pending_record_witness:
  "map_option (\<lambda>s. (clients (srv s), total_sent (srv s), loc s, map fst (writes (netw s))))
     (run (replicate (Suc 3) (Resume (\<lambda>c. None)))
        ((initial [WitsRecord_default, WitsRecord_default] (PFinite False 1) 10001 False)
           \<lparr>loc := Pace 0\<rparr>))
     = Some ([], 0, WaitReconnect 1, []) \<and>
   map_option (\<lambda>s. (clients (srv s), total_sent (srv s), loc s, map fst (writes (netw s))))
     (run (replicate (Suc 3) (Resume (\<lambda>c. None)) @ [Connect 4, Resume (\<lambda>c. None)])
        ((initial [WitsRecord_default, WitsRecord_default] (PFinite False 1) 10001 False)
           \<lparr>loc := Pace 0\<rparr>))
     = Some ([4], 1, Pace 1, [4])"
proof -
  let ?s = "(initial [WitsRecord_default, WitsRecord_default] (PFinite False 1) 10001 False)
           \<lparr>loc := Pace 0\<rparr>"
  have h: "loc ?s = Pace 0" "clients (srv ?s) = []" "running (srv ?s)"
    "0 + 1 < length (records (srv ?s))"
    by (simp_all add: initial_def)
  have u: "undisturbed (\<lambda>c. None) 4"
    by (simp add: undisturbed_def)
  note t = idle_period_keeps_pending_record [OF h, of 3 "\<lambda>c. None" 4 "\<lambda>c. None"]
  from t u have t1: "run (replicate (Suc 3) (Resume (\<lambda>c. None))) ?s
      = Some (?s\<lparr>loc := WaitReconnect (0 + 1)\<rparr>)"
    and t2: "run (replicate (Suc 3) (Resume (\<lambda>c. None)) @ [Connect 4, Resume (\<lambda>c. None)]) ?s =
            Some (?s\<lparr>srv := (srv ?s)\<lparr>clients := filter (\<lambda>c. \<not> failed (\<lambda>c. None) c) [4],
                                    total_sent := total_sent (srv ?s) + 1\<rparr>,
                    netw := (netw ?s)
                      \<lparr>writes := writes (netw ?s)
                         @ [(4, concat (map (\<lambda>l. l @ CRLF)
                                          (frame_lines (records (srv ?s) ! (0 + 1)))))],
                       closed := closed (netw ?s) @ filter (failed (\<lambda>c. None)) [4]\<rparr>,
                    loc := Pace (0 + 1)\<rparr>)"
    by blast+
  show ?thesis
    by (simp only: t1 t2) (simp add: initial_def failed_def)
qed

text \<open>
  C7. The run below is one the server can go through: a client connects and receives
  record 0, it disconnects during the pacing sleep, the feed loop finds the registry
  empty and waits with record 1 pending, and the shutdown signal arrives during that
  wait. Resumed, the loop leaves the wait, broadcasts record 1 to the empty registry and
  counts it: the sent counter goes from 1 to 2 and the loop moves past record 1 while
  the registry is empty, with a single frame ever written to a client.
\<close>

theorem shutdown_while_waiting_counts_record:
  "map_option (\<lambda>s. (clients (srv s), running (srv s), total_sent (srv s), loc s,
                     map fst (writes (netw s))))
     (run [Connect 1, Resume (\<lambda>c. None), Disconnect 1, Resume (\<lambda>c. None)]
        (initial [WitsRecord_default, WitsRecord_default] (PFinite False 1) 10001 False))
     = Some ([], True, 1, WaitReconnect 1, [1]) \<and>
   map_option (\<lambda>s. (clients (srv s), running (srv s), total_sent (srv s), loc s,
                     map fst (writes (netw s))))
     (run [Connect 1, Resume (\<lambda>c. None), Disconnect 1, Resume (\<lambda>c. None), Shutdown,
           Resume (\<lambda>c. None)]
        (initial [WitsRecord_default, WitsRecord_default] (PFinite False 1) 10001 False))
     = Some ([], False, 2, Pace 1, [1])"
  by (simp add: feed_eval)

end
